(* ===== verification/Prelude.thy ===== *)
theory Prelude
  imports Main "HOL-Library.Word" "HOL-Library.Code_Target_Nat"
begin

text \<open>
  Shared vocabulary of the development: the error type of \<^verbatim>\<open>src/rust/lancedb/src/error.rs\<close>,
  Rust's \<^verbatim>\<open>Result\<close> with the \<^verbatim>\<open>?\<close> operator, the operations of Rust's \<^verbatim>\<open>str\<close> that the
  components use (\<^verbatim>\<open>split\<close>, \<^verbatim>\<open>split_once\<close>, \<^verbatim>\<open>rsplit_once\<close>, \<^verbatim>\<open>strip_prefix\<close>, \<^verbatim>\<open>join\<close>), the
  decimal rendering and parsing of unsigned integers, and generic lemmas on lists.

  A Rust string is modelled by its UTF-8 bytes (\<^typ>\<open>string\<close>, whose characters are bytes), so
  that \<^verbatim>\<open>len()\<close> is \<^const>\<open>length\<close>. Every separator the code splits at is an ASCII character,
  which never occurs inside a multi-byte sequence, so splitting the bytes splits the text.
\<close>

named_theorems res_simps \<open>equations of the result combinators\<close>
named_theorems str_simps \<open>equations relating the string operations to each other\<close>

section \<open>Errors and results\<close>

text \<open>
  The error enum of the crate. The error a variant wraps from another crate is represented by its
  rendering. \<open>Panic\<close> is not a variant of the Rust enum: it stands for a panic of the running thread
  (an index out of bounds, a failed assertion, a division by zero), so that a panicking branch is a
  value of the model.
\<close>

datatype error =
    InvalidTableName string string
  | InvalidInput string
  | TableNotFound string
  | TableCorrupted string string
  | DatabaseNotFound string
  | DatabaseAlreadyExists string
  | IndexNotFound string
  | EmbeddingFunctionNotFound string string
  | ColumnNotFound string
  | ColumnAlreadyExists string
  | NotAComputedColumn string
  | NotAMaterializedView string
  | InvalidExpression string string
  | TableAlreadyExists string
  | CreateDir string string
  | Schema string
  | Runtime string
  | Timeout string
  | JobFailed "string option" job_failure
  | JobCancelled "string option"
  | JobNotFound string
  | ObjectStore string
  | Lance string
  | Http string string "nat option"
  | Retry string nat nat nat nat nat nat string "nat option"
  | Arrow string
  | NotSupported string
  | External string
  | Other string
  | Panic string
and job_failure =
    JobFailure "string option" "string option" "bool option" "error option"

type_synonym 'a result = "error + 'a"

text \<open>\<^verbatim>\<open>u64::to_string\<close> and \<^verbatim>\<open>format!("{}", n)\<close> on an unsigned integer.\<close>

definition digit_char :: "nat \<Rightarrow> char" where
  "digit_char d = char_of (48 + d)"

fun show_nat :: "nat \<Rightarrow> string" where
  "show_nat n = (if n < 10 then [digit_char n] else show_nat (n div 10) @ [digit_char (n mod 10)])"

declare show_nat.simps [simp del]

text \<open>The \<^verbatim>\<open>Display\<close> of an error, as its \<^verbatim>\<open>snafu(display)\<close> attribute says.\<close>

fun job_failure_to_string :: "job_failure \<Rightarrow> string" where
  "job_failure_to_string (JobFailure (Some phase) (Some message) r s) =
     '': '' @ message @ '' (in '' @ phase @ '')''"
| "job_failure_to_string (JobFailure None (Some message) r s) = '': '' @ message"
| "job_failure_to_string (JobFailure (Some phase) None r s) = '' in '' @ phase"
| "job_failure_to_string (JobFailure None None r s) = []"

definition quoted :: "string \<Rightarrow> string" where
  "quoted s = CHR 0x27 # s @ [CHR 0x27]"

definition job_id_to_string :: "string option \<Rightarrow> string" where
  "job_id_to_string i = (case i of None \<Rightarrow> [] | Some n \<Rightarrow> '' '' @ n)"

fun error_to_string :: "error \<Rightarrow> string" where
  "error_to_string (InvalidTableName name reason) =
     ''Invalid table name ('' @ CHR 0x22 # name @ CHR 0x22 # ''): '' @ reason"
| "error_to_string (InvalidInput message) = ''Invalid input, '' @ message"
| "error_to_string (TableNotFound name) = ''Table '' @ quoted name @ '' was not found''"
| "error_to_string (TableCorrupted name source) =
     ''Table '' @ quoted name @ '' exists but could not be loaded (it may be corrupt or incomplete): '' @ source"
| "error_to_string (DatabaseNotFound name) = ''Database '' @ quoted name @ '' was not found''"
| "error_to_string (DatabaseAlreadyExists name) = ''Database '' @ quoted name @ '' already exists.''"
| "error_to_string (IndexNotFound name) = ''Index '' @ quoted name @ '' was not found''"
| "error_to_string (EmbeddingFunctionNotFound name reason) =
     ''Embedding function '' @ quoted name @ '' was not found. : '' @ reason"
| "error_to_string (ColumnNotFound name) = ''Column '' @ quoted name @ '' was not found''"
| "error_to_string (ColumnAlreadyExists name) = ''Column '' @ quoted name @ '' already exists''"
| "error_to_string (NotAComputedColumn name) = ''Column '' @ quoted name @ '' is not a computed column''"
| "error_to_string (NotAMaterializedView name) = ''Table '' @ quoted name @ '' is not a materialized view''"
| "error_to_string (InvalidExpression column message) =
     ''Invalid expression for column '' @ quoted column @ '': '' @ message"
| "error_to_string (TableAlreadyExists name) = ''Table '' @ quoted name @ '' already exists''"
| "error_to_string (CreateDir path source) = ''Unable to created lance dataset at '' @ path @ '': '' @ source"
| "error_to_string (Schema message) = ''Schema Error: '' @ message"
| "error_to_string (Runtime message) = ''Runtime error: '' @ message"
| "error_to_string (Timeout message) = ''Timeout error: '' @ message"
| "error_to_string (JobFailed i failure) = ''Job'' @ job_id_to_string i @ '' failed'' @ job_failure_to_string failure"
| "error_to_string (JobCancelled i) = ''Job'' @ job_id_to_string i @ '' was cancelled''"
| "error_to_string (JobNotFound i) = ''Job '' @ quoted i @ '' was not found''"
| "error_to_string (ObjectStore source) = ''object_store error: '' @ source"
| "error_to_string (Lance source) = ''lance error: '' @ source"
| "error_to_string (Http source request_id status) = ''Http error: (request_id='' @ request_id @ '') '' @ source"
| "error_to_string (Retry request_id rf mrf cf mcf df mdf source status) =
     ''Hit retry limit for request_id='' @ request_id
     @ '' (request_failures='' @ show_nat rf @ ''/'' @ show_nat mrf
     @ '', connect_failures='' @ show_nat cf @ ''/'' @ show_nat mcf
     @ '', read_failures='' @ show_nat df @ ''/'' @ show_nat mdf @ ''): '' @ source"
| "error_to_string (Arrow source) = ''Arrow error: '' @ source"
| "error_to_string (NotSupported message) = ''LanceDBError: not supported: '' @ message"
| "error_to_string (External source) = source"
| "error_to_string (Other message) = message"
| "error_to_string (Panic message) = message"

definition is_ok :: "'e + 'a \<Rightarrow> bool" where
  "is_ok r = (case r of Inl _ \<Rightarrow> False | Inr _ \<Rightarrow> True)"

text \<open>\<open>try_bind m f\<close> is \<^verbatim>\<open>let x = m?; f(x)\<close>.\<close>

definition try_bind :: "'e + 'a \<Rightarrow> ('a \<Rightarrow> 'e + 'b) \<Rightarrow> 'e + 'b" where
  "try_bind m f = (case m of Inl e \<Rightarrow> Inl e | Inr x \<Rightarrow> f x)"

text \<open>\<^verbatim>\<open>Result::map_err\<close> and \<^verbatim>\<open>Option::ok_or\<close>.\<close>

definition map_err :: "('e \<Rightarrow> 'f) \<Rightarrow> 'e + 'a \<Rightarrow> 'f + 'a" where
  "map_err g m = (case m of Inl e \<Rightarrow> Inl (g e) | Inr x \<Rightarrow> Inr x)"

definition ok_or :: "'e \<Rightarrow> 'a option \<Rightarrow> 'e + 'a" where
  "ok_or e m = (case m of None \<Rightarrow> Inl e | Some x \<Rightarrow> Inr x)"

text \<open>A loop that runs a fallible action on each element and stops at the first error.\<close>

fun try_all :: "('a \<Rightarrow> 'e + unit) \<Rightarrow> 'a list \<Rightarrow> 'e + unit" where
  "try_all f [] = Inr ()"
| "try_all f (x # xs) = try_bind (f x) (\<lambda>_. try_all f xs)"

text \<open>\<^verbatim>\<open>iter().map(f).collect::<Result<Vec<_>>>()\<close>: the first error wins.\<close>

fun try_map :: "('a \<Rightarrow> 'e + 'b) \<Rightarrow> 'a list \<Rightarrow> 'e + 'b list" where
  "try_map f [] = Inr []"
| "try_map f (x # xs) = try_bind (f x) (\<lambda>y. try_bind (try_map f xs) (\<lambda>ys. Inr (y # ys)))"

lemma is_ok_simps [simp, res_simps]: "is_ok (Inl e) = False" "is_ok (Inr x) = True"
  by (simp_all add: is_ok_def)

lemma is_ok_unit: "is_ok r \<longleftrightarrow> r = Inr ()"
  by (cases r) auto

lemma try_bind_simps [simp, res_simps]:
  "try_bind (Inl e) f = Inl e" "try_bind (Inr x) f = f x"
  by (simp_all add: try_bind_def)

lemma try_bind_Inr_iff: "try_bind m f = Inr y \<longleftrightarrow> (\<exists>x. m = Inr x \<and> f x = Inr y)"
  by (cases m) auto

lemma map_err_simps [simp, res_simps]:
  "map_err g (Inl e) = Inl (g e)" "map_err g (Inr x) = Inr x"
  by (simp_all add: map_err_def)

lemma map_err_Inr_iff [simp]: "map_err g m = Inr x \<longleftrightarrow> m = Inr x"
  by (cases m) auto

lemma is_ok_map_err [simp]: "is_ok (map_err g m) = is_ok m"
  by (cases m) auto

lemma ok_or_simps [simp, res_simps]: "ok_or e None = Inl e" "ok_or e (Some x) = Inr x"
  by (simp_all add: ok_or_def)

lemma ok_or_Inr_iff [simp]: "ok_or e m = Inr x \<longleftrightarrow> m = Some x"
  by (cases m) auto

lemma try_all_Inr_iff: "try_all f xs = Inr () \<longleftrightarrow> (\<forall>x \<in> set xs. f x = Inr ())"
  by (induction xs) (auto simp: try_bind_Inr_iff)

lemma is_ok_try_all: "is_ok (try_all f xs) \<longleftrightarrow> (\<forall>x \<in> set xs. is_ok (f x))"
  by (simp add: is_ok_unit try_all_Inr_iff)

lemma try_map_length: "try_map f xs = Inr ys \<Longrightarrow> length ys = length xs"
  by (induction xs arbitrary: ys) (auto simp: try_bind_Inr_iff)

lemma try_map_Inr_iff: "try_map f xs = Inr ys \<longleftrightarrow> list_all2 (\<lambda>x y. f x = Inr y) xs ys"
  by (induction xs arbitrary: ys) (auto simp: try_bind_Inr_iff list_all2_Cons1)

lemma try_map_total: "(\<forall>x \<in> set xs. f x = Inr (g x)) \<Longrightarrow> try_map f xs = Inr (map g xs)"
  by (induction xs) auto

section \<open>Strings\<close>

subsection \<open>Splitting and joining\<close>

text \<open>\<^verbatim>\<open>str::split(c)\<close>: the empty string splits into one empty piece.\<close>

fun split_on :: "'a \<Rightarrow> 'a list \<Rightarrow> 'a list list" where
  "split_on c [] = [[]]"
| "split_on c (x # xs) =
     (if x = c then [] # split_on c xs
      else (case split_on c xs of [] \<Rightarrow> [[x]] | y # ys \<Rightarrow> (x # y) # ys))"

text \<open>\<^verbatim>\<open>[String]::join(c)\<close>.\<close>

fun join_with :: "'a \<Rightarrow> 'a list list \<Rightarrow> 'a list" where
  "join_with c [] = []"
| "join_with c [x] = x"
| "join_with c (x # y # ys) = x @ c # join_with c (y # ys)"

text \<open>\<^verbatim>\<open>str::split_once(c)\<close> splits at the first \<open>c\<close>, \<^verbatim>\<open>str::rsplit_once(c)\<close> at the last.\<close>

fun split_once :: "'a \<Rightarrow> 'a list \<Rightarrow> ('a list \<times> 'a list) option" where
  "split_once c [] = None"
| "split_once c (x # xs) =
     (if x = c then Some ([], xs)
      else (case split_once c xs of None \<Rightarrow> None | Some (a, b) \<Rightarrow> Some (x # a, b)))"

definition rsplit_once :: "'a \<Rightarrow> 'a list \<Rightarrow> ('a list \<times> 'a list) option" where
  "rsplit_once c s =
     (case split_once c (rev s) of None \<Rightarrow> None | Some (a, b) \<Rightarrow> Some (rev b, rev a))"

text \<open>\<^verbatim>\<open>str::strip_prefix(p)\<close>.\<close>

fun strip_prefix :: "'a list \<Rightarrow> 'a list \<Rightarrow> 'a list option" where
  "strip_prefix [] s = Some s"
| "strip_prefix (p # ps) [] = None"
| "strip_prefix (p # ps) (x # xs) = (if p = x then strip_prefix ps xs else None)"

lemma split_on_neq_Nil [simp]: "split_on c s \<noteq> []"
  by (induction s) (auto split: list.splits)

lemma join_split_on [str_simps]: "join_with c (split_on c s) = s"
proof (induction s)
  case (Cons x xs)
  then show ?case
    by (cases "split_on c xs"; cases "tl (split_on c xs)") auto
qed simp

lemma split_on_no_sep [str_simps]: "c \<notin> set s \<Longrightarrow> split_on c s = [s]"
  by (induction s) auto

lemma split_on_append_sep [str_simps]:
  "c \<notin> set a \<Longrightarrow> split_on c (a @ c # b) = a # split_on c b"
  by (induction a) auto

lemma split_on_join [str_simps]:
  "xs \<noteq> [] \<Longrightarrow> \<forall>x \<in> set xs. c \<notin> set x \<Longrightarrow> split_on c (join_with c xs) = xs"
  by (induction c xs rule: join_with.induct) (auto simp: str_simps)

lemma split_on_pieces_no_sep: "p \<in> set (split_on c s) \<Longrightarrow> c \<notin> set p"
  by (induction s arbitrary: p) (auto split: if_splits list.splits)

lemma set_join_with: "set (join_with c xs) \<subseteq> insert c (\<Union> (set ` set xs))"
  by (induction c xs rule: join_with.induct) auto

lemma join_with_snoc [str_simps]:
  "xs \<noteq> [] \<Longrightarrow> join_with c (xs @ [y]) = join_with c xs @ c # y"
  by (induction c xs rule: join_with.induct) auto

lemma split_once_None_iff: "split_once c s = None \<longleftrightarrow> c \<notin> set s"
  by (induction s) (auto split: option.splits)

lemma split_once_Some: "split_once c s = Some (a, b) \<Longrightarrow> s = a @ c # b \<and> c \<notin> set a"
  by (induction s arbitrary: a) (auto split: if_splits option.splits)

lemma split_once_append [str_simps]: "c \<notin> set a \<Longrightarrow> split_once c (a @ c # b) = Some (a, b)"
  by (induction a) auto

lemma rsplit_once_Some: "rsplit_once c s = Some (a, b) \<Longrightarrow> s = a @ c # b \<and> c \<notin> set b"
  by (auto simp: rsplit_once_def split: option.splits prod.splits dest!: split_once_Some)
    (metis append_Cons append_Nil append_assoc rev.simps(2) rev_append rev_rev_ident)

lemma rsplit_once_append [str_simps]: "c \<notin> set b \<Longrightarrow> rsplit_once c (a @ c # b) = Some (a, b)"
  by (simp add: rsplit_once_def str_simps)

lemma strip_prefix_Some_iff: "strip_prefix p s = Some r \<longleftrightarrow> s = p @ r"
  by (induction p s rule: strip_prefix.induct) auto

lemma strip_prefix_append [simp]: "strip_prefix p (p @ r) = Some r"
  by (simp add: strip_prefix_Some_iff)

subsection \<open>ASCII classes and decimal numbers\<close>

definition is_ascii_digit :: "char \<Rightarrow> bool" where
  "is_ascii_digit c = (48 \<le> (of_char c :: nat) \<and> (of_char c :: nat) \<le> 57)"

definition is_ascii_alphanumeric :: "char \<Rightarrow> bool" where
  "is_ascii_alphanumeric c =
     (is_ascii_digit c \<or> (65 \<le> (of_char c :: nat) \<and> (of_char c :: nat) \<le> 90)
        \<or> (97 \<le> (of_char c :: nat) \<and> (of_char c :: nat) \<le> 122))"

text \<open>
  \<^verbatim>\<open>str::parse::<uN>()\<close>: an optional \<open>+\<close>, then at least one decimal digit, and a value of at
  most \<open>bound\<close>; anything else is a \<^verbatim>\<open>ParseIntError\<close>.
\<close>

fun digits_value :: "nat \<Rightarrow> string \<Rightarrow> nat" where
  "digits_value acc [] = acc"
| "digits_value acc (c # cs) = digits_value (acc * 10 + (of_char c - 48)) cs"

definition parse_uint :: "nat \<Rightarrow> string \<Rightarrow> nat option" where
  "parse_uint bound s =
     (let ds = (case s of c # cs \<Rightarrow> if c = CHR ''+'' then cs else s | [] \<Rightarrow> s)
      in if ds = [] \<or> \<not> list_all is_ascii_digit ds then None
         else if digits_value 0 ds \<le> bound then Some (digits_value 0 ds) else None)"

lemma of_char_digit_char: "d < 10 \<Longrightarrow> (of_char (digit_char d) :: nat) = 48 + d"
  by (simp add: digit_char_def)

lemma is_ascii_digit_digit_char: "d < 10 \<Longrightarrow> is_ascii_digit (digit_char d)"
  by (simp add: is_ascii_digit_def of_char_digit_char)

lemma show_nat_digits: "list_all is_ascii_digit (show_nat n)"
proof (induction n rule: show_nat.induct)
  case (1 n)
  then show ?case
    by (cases "n < 10") (simp_all add: show_nat.simps [of n] is_ascii_digit_digit_char)
qed

lemma show_nat_neq_Nil [simp]: "show_nat n \<noteq> []"
  by (subst show_nat.simps) simp

lemma digits_value_append: "digits_value acc (xs @ ys) = digits_value (digits_value acc xs) ys"
  by (induction xs arbitrary: acc) auto

lemma digits_value_show_nat: "digits_value 0 (show_nat n) = n"
proof (induction n rule: show_nat.induct)
  case (1 n)
  then show ?case
    by (cases "n < 10")
      (simp_all add: show_nat.simps [of n] digits_value_append of_char_digit_char)
qed

lemma plus_not_digit: "is_ascii_digit c \<Longrightarrow> c \<noteq> CHR ''+''"
  by (auto simp: is_ascii_digit_def)

lemma parse_uint_digits:
  assumes "list_all is_ascii_digit ds" "ds \<noteq> []"
  shows "parse_uint bound ds = (if digits_value 0 ds \<le> bound then Some (digits_value 0 ds) else None)"
  using assms by (cases ds) (auto simp: parse_uint_def dest: plus_not_digit)

lemma parse_uint_show_nat [str_simps]: "n \<le> bound \<Longrightarrow> parse_uint bound (show_nat n) = Some n"
  by (simp add: parse_uint_digits show_nat_digits digits_value_show_nat)

lemma parse_uint_bound: "parse_uint bound s = Some n \<Longrightarrow> n \<le> bound"
  by (auto simp: parse_uint_def Let_def split: if_splits)

lemma show_nat_inject [simp]: "show_nat m = show_nat n \<longleftrightarrow> m = n"
  by (metis digits_value_show_nat)

section \<open>Lists\<close>

lemma list_all_notin: "list_all P s \<Longrightarrow> \<not> P c \<Longrightarrow> c \<notin> set s"
  by (auto simp: list_all_iff)

text \<open>\<^verbatim>\<open>u64::div_ceil\<close>; the code only divides by a positive number.\<close>

definition div_ceil :: "nat \<Rightarrow> nat \<Rightarrow> nat" where
  "div_ceil a b = (a + b - 1) div b"

lemma div_ceil_bounds:
  assumes "0 < b"
  shows "a \<le> div_ceil a b * b" and "0 < a \<Longrightarrow> (div_ceil a b - 1) * b < a"
proof -
  have "(a + b - 1) mod b < b" using assms by simp
  moreover have "div_ceil a b * b + (a + b - 1) mod b = a + b - 1"
    by (simp add: div_ceil_def)
  ultimately show "a \<le> div_ceil a b * b" using assms by linarith
  show "(div_ceil a b - 1) * b < a" if "0 < a"
  proof -
    have "div_ceil a b * b \<le> a + b - 1"
      by (simp add: div_ceil_def)
    then show ?thesis using that assms
      by (simp add: diff_mult_distrib)
  qed
qed

end
