(* ===== verification/Names.thy ===== *)
theory Names
  imports Prelude
begin

text \<open>
  Name validation, \<^verbatim>\<open>src/rust/lancedb/src/utils/mod.rs\<close>: the limits, \<^verbatim>\<open>sanitize\<close> and the
  \<^verbatim>\<open>validate_*\<close> functions, in the order of the source. The lemmas characterise the accepted names
  exactly and show that an accepted name never contains one of the separators of the wire
  encodings built from it (\<open>:\<close>, \<open>$\<close>, and for everything but databases \<open>/\<close>). The locale
  \<open>name_validator\<close> is the contract the authorization objects rely on.
\<close>

section \<open>Limits\<close>

definition MAX_TABLE_NAME_CHARS :: nat where "MAX_TABLE_NAME_CHARS = 128"
definition MAX_NAMESPACE_NAME_CHARS :: nat where "MAX_NAMESPACE_NAME_CHARS = 64"
definition MAX_NAMESPACE_COMPONENTS :: nat where "MAX_NAMESPACE_COMPONENTS = 10"
definition MAX_VIEW_NAME_CHARS :: nat where "MAX_VIEW_NAME_CHARS = 128"
definition MAX_SECRET_NAME_CHARS :: nat where "MAX_SECRET_NAME_CHARS = 128"
definition MAX_FUNCTION_NAME_CHARS :: nat where "MAX_FUNCTION_NAME_CHARS = 128"
definition MAX_DB_NAME_CHARS :: nat where "MAX_DB_NAME_CHARS = 64"

lemmas name_limits = MAX_TABLE_NAME_CHARS_def MAX_NAMESPACE_NAME_CHARS_def
  MAX_NAMESPACE_COMPONENTS_def MAX_VIEW_NAME_CHARS_def MAX_SECRET_NAME_CHARS_def
  MAX_FUNCTION_NAME_CHARS_def MAX_DB_NAME_CHARS_def

section \<open>Sanitizing for the log\<close>

text \<open>
  \<^verbatim>\<open>char::is_control\<close> holds for U+0000 to U+001F, U+007F and U+0080 to U+009F. In UTF-8 the
  last range is the byte \<^verbatim>\<open>C2\<close> followed by \<^verbatim>\<open>80\<close> to \<^verbatim>\<open>9F\<close>.
\<close>

definition is_c0_control :: "char \<Rightarrow> bool" where
  "is_c0_control c = ((of_char c :: nat) < 32 \<or> (of_char c :: nat) = 127)"

definition is_c1_pair :: "char \<Rightarrow> char \<Rightarrow> bool" where
  "is_c1_pair a b = ((of_char a :: nat) = 194 \<and> 128 \<le> (of_char b :: nat) \<and> (of_char b :: nat) \<le> 159)"

fun sanitize :: "string \<Rightarrow> string" where
  "sanitize [] = []"
| "sanitize [a] = (if is_c0_control a then [] else [a])"
| "sanitize (a # b # s) =
     (if is_c0_control a then sanitize (b # s)
      else if is_c1_pair a b then sanitize s
      else a # sanitize (b # s))"

section \<open>Validators\<close>

text \<open>The text between single quotes in a message.\<close>

definition is_name_char :: "char \<Rightarrow> bool" where
  "is_name_char c =
     (is_ascii_alphanumeric c \<or> c = CHR ''-'' \<or> c = CHR ''_'' \<or> c = CHR ''.'')"

definition validate_table_name :: "string \<Rightarrow> unit result" where
  "validate_table_name name =
     (if name = [] \<or> name = ''.'' \<or> name = ''..''
      then Inl (InvalidTableName name ''Illegal table name.'')
      else if length name > MAX_TABLE_NAME_CHARS
      then Inl (InvalidTableName (sanitize name)
             (''Table name cannot be more than '' @ show_nat MAX_TABLE_NAME_CHARS
                @ '' characters long.''))
      else if \<not> list_all is_name_char name
      then Inl (InvalidTableName (sanitize name)
             (''Only alphanumeric characters, dashes, underscores, and''
                @ ''periods are allowed in table names.''))
      else Inr ())"

definition validate_view_or_namespace_or_secret ::
    "string \<Rightarrow> string \<Rightarrow> nat \<Rightarrow> unit result" where
  "validate_view_or_namespace_or_secret input kind max_len =
     (if input = [] \<or> input = ''.'' \<or> input = ''..''
      then Inl (InvalidInput (''Illegal '' @ kind @ '' '' @ quoted input @ ''.''))
      else if length input > max_len
      then Inl (InvalidInput (''Invalid '' @ kind @ '' '' @ quoted (sanitize input)
             @ '' is more than '' @ show_nat max_len @ '' characters long.''))
      else if \<not> list_all is_name_char input
      then Inl (InvalidInput (''Invalid '' @ kind @ '' '' @ quoted (sanitize input)
             @ '': only alphanumeric characters, dashes, underscores, and periods are allowed.''))
      else Inr ())"

definition validate_namespace_component :: "string \<Rightarrow> unit result" where
  "validate_namespace_component name =
     validate_view_or_namespace_or_secret name ''namespace component'' MAX_NAMESPACE_NAME_CHARS"

definition validate_namespace :: "string list \<Rightarrow> unit result" where
  "validate_namespace namespace =
     (if length namespace > 1 \<and> hd namespace = ''public''
      then Inl (InvalidInput
             ''Namespaces that begin with public cannot have multiple namespace components.'')
      else if length namespace > MAX_NAMESPACE_COMPONENTS
      then Inl (InvalidInput (''Cannot have a namespace with more than ''
             @ show_nat MAX_NAMESPACE_COMPONENTS @ '' components.''))
      else try_all validate_namespace_component namespace)"

definition validate_secret_name :: "string \<Rightarrow> unit result" where
  "validate_secret_name name =
     validate_view_or_namespace_or_secret name ''secret name'' MAX_SECRET_NAME_CHARS"

definition validate_secret_reference :: "string \<Rightarrow> string list \<Rightarrow> unit result" where
  "validate_secret_reference name namespace_path =
     try_bind (validate_namespace namespace_path) (\<lambda>_. validate_secret_name name)"

definition validate_view_name :: "string \<Rightarrow> unit result" where
  "validate_view_name name =
     validate_view_or_namespace_or_secret name ''view name'' MAX_VIEW_NAME_CHARS"

definition validate_view_reference :: "string \<Rightarrow> string list \<Rightarrow> unit result" where
  "validate_view_reference name namespace_path =
     try_bind (validate_namespace namespace_path) (\<lambda>_. validate_view_name name)"

definition is_function_char :: "char \<Rightarrow> bool" where
  "is_function_char c = (is_ascii_alphanumeric c \<or> c = CHR ''_'')"

definition validate_function_name :: "string \<Rightarrow> unit result" where
  "validate_function_name name =
     (if name = []
      then Inl (InvalidInput (''Invalid function name '' @ quoted name @ ''.''))
      else if length name > MAX_FUNCTION_NAME_CHARS
      then Inl (InvalidInput (''Invalid function name '' @ quoted (sanitize name)
             @ '' is more than '' @ show_nat MAX_FUNCTION_NAME_CHARS @ '' characters long.''))
      else if \<not> list_all is_function_char name
      then Inl (InvalidInput (''Invalid function name '' @ quoted (sanitize name)
             @ '': only alphanumeric characters and underscores are allowed.''))
      else Inr ())"

definition is_database_char :: "char \<Rightarrow> bool" where
  "is_database_char c = (is_name_char c \<or> c = CHR ''/'')"

definition check_database_component :: "string \<Rightarrow> string \<Rightarrow> unit result" where
  "check_database_component name component =
     (if component = []
      then Inl (InvalidInput (''Invalid database name '' @ quoted (sanitize name)
             @ '': invalid empty path component.''))
      else if component = ''.'' \<or> component = ''..''
      then Inl (InvalidInput (''Invalid database name '' @ quoted (sanitize name)
             @ '': illegal path component.''))
      else Inr ())"

definition validate_database_name :: "string \<Rightarrow> unit result" where
  "validate_database_name name =
     (if length name > MAX_DB_NAME_CHARS
      then Inl (InvalidInput (''Invalid database name '' @ quoted (sanitize name)
             @ '' is more than '' @ show_nat MAX_DB_NAME_CHARS @ '' characters long.''))
      else if \<not> list_all is_database_char name
      then Inl (InvalidInput (''Invalid database name '' @ quoted (sanitize name)
             @ '': only alphanumeric characters, dashes, underscores, periods, and slashes are allowed.''))
      else try_all (check_database_component name) (split_on CHR ''/'' name))"

section \<open>The accepted names\<close>

text \<open>The specification the validators share: a legal segment of bounded length.\<close>

definition legal_segment :: "nat \<Rightarrow> string \<Rightarrow> bool" where
  "legal_segment max_len s =
     (s \<noteq> [] \<and> s \<noteq> ''.'' \<and> s \<noteq> ''..'' \<and> length s \<le> max_len \<and> list_all is_name_char s)"

definition legal_database :: "string \<Rightarrow> bool" where
  "legal_database s =
     (length s \<le> MAX_DB_NAME_CHARS \<and> list_all is_database_char s
        \<and> (\<forall>c \<in> set (split_on CHR ''/'' s). c \<noteq> [] \<and> c \<noteq> ''.'' \<and> c \<noteq> ''..''))"

lemma validate_table_name_iff:
  "validate_table_name s = Inr () \<longleftrightarrow> legal_segment MAX_TABLE_NAME_CHARS s"
  by (auto simp: validate_table_name_def legal_segment_def)

lemma validate_segment_iff:
  "validate_view_or_namespace_or_secret s kind n = Inr () \<longleftrightarrow> legal_segment n s"
  by (auto simp: validate_view_or_namespace_or_secret_def legal_segment_def)

lemma validate_namespace_component_iff:
  "validate_namespace_component s = Inr () \<longleftrightarrow> legal_segment MAX_NAMESPACE_NAME_CHARS s"
  by (simp add: validate_namespace_component_def validate_segment_iff)

lemma validate_secret_name_iff:
  "validate_secret_name s = Inr () \<longleftrightarrow> legal_segment MAX_SECRET_NAME_CHARS s"
  by (simp add: validate_secret_name_def validate_segment_iff)

lemma validate_view_name_iff:
  "validate_view_name s = Inr () \<longleftrightarrow> legal_segment MAX_VIEW_NAME_CHARS s"
  by (simp add: validate_view_name_def validate_segment_iff)

lemma validate_database_name_iff: "validate_database_name s = Inr () \<longleftrightarrow> legal_database s"
  by (auto simp: validate_database_name_def legal_database_def try_all_Inr_iff
      check_database_component_def)

lemma validate_namespace_iff:
  "validate_namespace ns = Inr () \<longleftrightarrow>
     (length ns \<le> MAX_NAMESPACE_COMPONENTS \<and> (hd ns = ''public'' \<longrightarrow> length ns \<le> 1)
        \<and> (\<forall>c \<in> set ns. legal_segment MAX_NAMESPACE_NAME_CHARS c))"
  by (auto simp: validate_namespace_def try_all_Inr_iff validate_namespace_component_iff)

lemma validate_function_name_iff:
  "validate_function_name s = Inr () \<longleftrightarrow>
     (s \<noteq> [] \<and> length s \<le> MAX_FUNCTION_NAME_CHARS \<and> list_all is_function_char s)"
  by (auto simp: validate_function_name_def)

lemmas validator_iffs = validate_table_name_iff validate_namespace_component_iff
  validate_secret_name_iff validate_view_name_iff validate_database_name_iff

section \<open>Separators\<close>

lemma name_char_not_sep [simp]:
  "\<not> is_name_char CHR '':''" "\<not> is_name_char CHR ''$''" "\<not> is_name_char CHR ''/''"
  by (simp_all add: is_name_char_def is_ascii_alphanumeric_def is_ascii_digit_def)

lemma database_char_not_sep [simp]:
  "\<not> is_database_char CHR '':''" "\<not> is_database_char CHR ''$''"
  by (simp_all add: is_database_char_def)

lemma legal_segment_no_sep:
  assumes "legal_segment n s"
  shows "CHR '':'' \<notin> set s" "CHR ''$'' \<notin> set s" "CHR ''/'' \<notin> set s" "s \<noteq> []"
  using assms name_char_not_sep by (auto simp: legal_segment_def list_all_iff)

lemma legal_database_no_sep:
  assumes "legal_database s"
  shows "CHR '':'' \<notin> set s" "CHR ''$'' \<notin> set s" "s \<noteq> []"
  using assms database_char_not_sep by (auto simp: legal_database_def list_all_iff)

text \<open>
  The contract of a validator of the last component of an object: what it accepts is not empty
  and contains no separator of the wire encoding.
\<close>

locale name_validator =
  fixes validate :: "string \<Rightarrow> unit result"
  assumes accepted_nonempty: "validate s = Inr () \<Longrightarrow> s \<noteq> []"
    and accepted_no_colon: "validate s = Inr () \<Longrightarrow> CHR '':'' \<notin> set s"
    and accepted_no_dollar: "validate s = Inr () \<Longrightarrow> CHR ''$'' \<notin> set s"
begin

lemma path_split:
  "validate leaf = Inr () \<Longrightarrow> rsplit_once CHR ''$'' (path @ CHR ''$'' # leaf) = Some (path, leaf)"
  by (simp add: str_simps accepted_no_dollar)

end

interpretation table_name: name_validator validate_table_name
  by unfold_locales (simp_all add: validator_iffs legal_segment_no_sep)

interpretation view_name: name_validator validate_view_name
  by unfold_locales (simp_all add: validator_iffs legal_segment_no_sep)

interpretation secret_name: name_validator validate_secret_name
  by unfold_locales (simp_all add: validator_iffs legal_segment_no_sep)

interpretation namespace_component: name_validator validate_namespace_component
  by unfold_locales (simp_all add: validator_iffs legal_segment_no_sep)

end
