(* ===== verification/AuthzObject.thy ===== *)
theory AuthzObject
  imports Names "HOL-Library.Char_ord" "HOL-Library.List_Lexorder" "HOL-Library.Product_Lexorder"
begin

text \<open>
  Authorization objects, \<^verbatim>\<open>src/rust/lancedb/src/authz/object.rs\<close>: the namespace path and its
  \<open>$\<close>-separated encoding, the six named resources and \<^verbatim>\<open>Object\<close>, each with its validation, its
  canonical wire name (\<^verbatim>\<open>Display\<close>) and its parser (\<^verbatim>\<open>Deserialize\<close>). The structs are datatypes with
  one constructor, because the source derives an order on them and the model instantiates the
  order classes. A parser's error is the text given to \<^verbatim>\<open>D::Error::custom\<close>; the rejected input that
  \<^verbatim>\<open>{s:?}\<close> appends to it is left out.

  The locales \<open>wire_reader\<close> and \<open>wire_codec\<close> are the contract of a textual encoding; every object
  type interprets \<open>wire_codec\<close>, so that printing and parsing are mutually inverse on well-formed
  values and the accepted texts are exactly the printed ones.
\<close>

section \<open>The contract of a wire encoding\<close>

locale wire_reader =
  fixes print :: "'a \<Rightarrow> string"
    and parse :: "string \<Rightarrow> 'e + 'a"
    and wf :: "'a \<Rightarrow> bool"
  assumes parse_print: "wf x \<Longrightarrow> parse (print x) = Inr x"
    and parse_wf: "parse s = Inr x \<Longrightarrow> wf x"
begin

lemma print_inj: "wf x \<Longrightarrow> wf y \<Longrightarrow> print x = print y \<Longrightarrow> x = y"
  by (metis parse_print sum.inject(2))

lemma reparse: "parse s = Inr x \<Longrightarrow> parse (print x) = Inr x"
  by (simp add: parse_print parse_wf)

end

locale wire_codec = wire_reader +
  assumes print_parse: "parse s = Inr x \<Longrightarrow> print x = s"
begin

lemma parse_iff: "parse s = Inr x \<longleftrightarrow> wf x \<and> print x = s"
  by (auto simp: parse_print parse_wf print_parse)

lemma parse_inj: "parse s = Inr x \<Longrightarrow> parse t = Inr x \<Longrightarrow> s = t"
  using print_parse by blast

end

section \<open>Namespace paths\<close>

definition DEFAULT_NAMESPACE :: string where "DEFAULT_NAMESPACE = ''public''"

definition SYSTEM_TYPE_STRING :: string where "SYSTEM_TYPE_STRING = ''system''"
definition DATABASE_TYPE_STRING :: string where "DATABASE_TYPE_STRING = ''database''"
definition NAMESPACE_TYPE_STRING :: string where "NAMESPACE_TYPE_STRING = ''namespace''"
definition TABLE_TYPE_STRING :: string where "TABLE_TYPE_STRING = ''table''"
definition VIEW_TYPE_STRING :: string where "VIEW_TYPE_STRING = ''view''"
definition SECRET_TYPE_STRING :: string where "SECRET_TYPE_STRING = ''secret''"
definition FUNCTION_TYPE_STRING :: string where "FUNCTION_TYPE_STRING = ''function''"
definition UNKNOWN_TYPE_STRING :: string where "UNKNOWN_TYPE_STRING = ''unknown''"

lemmas type_strings = SYSTEM_TYPE_STRING_def DATABASE_TYPE_STRING_def NAMESPACE_TYPE_STRING_def
  TABLE_TYPE_STRING_def VIEW_TYPE_STRING_def SECRET_TYPE_STRING_def FUNCTION_TYPE_STRING_def
  UNKNOWN_TYPE_STRING_def

datatype namespace_path = NamespacePath (components: "string list")

definition path_default :: namespace_path where
  "path_default = NamespacePath [DEFAULT_NAMESPACE]"

definition path_new :: "string list \<Rightarrow> string + namespace_path" where
  "path_new cs =
     (if cs = [] then Inr path_default
      else try_bind (try_all (\<lambda>c. map_err error_to_string (validate_namespace_component c)) cs)
             (\<lambda>_. Inr (NamespacePath cs)))"

text \<open>\<^verbatim>\<open>from_component\<close> panics on an invalid component.\<close>

definition path_from_component :: "string \<Rightarrow> error + namespace_path" where
  "path_from_component c =
     map_err (\<lambda>_. Panic ''namespace components must be valid'') (path_new [c])"

definition path_parent :: "namespace_path \<Rightarrow> namespace_path option" where
  "path_parent p =
     (if length (components p) > 1
      then Some (NamespacePath (take (length (components p) - 1) (components p))) else None)"

definition path_prefixes :: "namespace_path \<Rightarrow> namespace_path list" where
  "path_prefixes p =
     map (\<lambda>n. NamespacePath (take n (components p))) [1..<Suc (length (components p))]"

definition is_descendant_of :: "namespace_path \<Rightarrow> namespace_path \<Rightarrow> bool" where
  "is_descendant_of p ancestor =
     (length (components p) > length (components ancestor)
        \<and> take (length (components ancestor)) (components p) = components ancestor)"

definition path_parse :: "string \<Rightarrow> string + namespace_path" where
  "path_parse path = path_new (split_on CHR ''$'' path)"

definition path_to_string :: "namespace_path \<Rightarrow> string" where
  "path_to_string p = join_with CHR ''$'' (components p)"

text \<open>
  The field of \<^verbatim>\<open>NamespacePath\<close> is private: every path the crate builds is not empty and has legal
  components.
\<close>

definition wf_path :: "namespace_path \<Rightarrow> bool" where
  "wf_path p =
     (components p \<noteq> [] \<and> (\<forall>c \<in> set (components p). legal_segment MAX_NAMESPACE_NAME_CHARS c))"

lemma path_new_Inr_iff:
  "path_new cs = Inr p \<longleftrightarrow>
     (if cs = [] then p = path_default else wf_path p \<and> p = NamespacePath cs)"
  by (auto simp: path_new_def wf_path_def try_bind_Inr_iff try_all_Inr_iff
      validate_namespace_component_iff)

lemma wf_path_default: "wf_path path_default"
  by (simp add: wf_path_def path_default_def DEFAULT_NAMESPACE_def legal_segment_def name_limits
      is_name_char_def is_ascii_alphanumeric_def is_ascii_digit_def)

lemma path_new_wf: "path_new cs = Inr p \<Longrightarrow> wf_path p"
  by (auto simp: path_new_Inr_iff wf_path_default split: if_splits)

interpretation path_codec: wire_codec path_to_string path_parse wf_path
proof unfold_locales
  fix p assume p: "wf_path p"
  then have "split_on CHR ''$'' (path_to_string p) = components p"
    by (auto simp: path_to_string_def wf_path_def legal_segment_no_sep intro!: split_on_join)
  with p show "path_parse (path_to_string p) = Inr p"
    by (simp add: path_parse_def path_new_Inr_iff wf_path_def)
next
  fix s p assume "path_parse s = Inr p"
  then show "wf_path p" "path_to_string p = s"
    by (auto simp: path_parse_def path_new_Inr_iff path_to_string_def str_simps)
qed

lemma path_to_string_no_colon: "wf_path p \<Longrightarrow> CHR '':'' \<notin> set (path_to_string p)"
  using set_join_with [of "CHR ''$''" "components p"]
  by (auto simp: wf_path_def path_to_string_def dest: legal_segment_no_sep)

lemma wf_path_take: "wf_path p \<Longrightarrow> 0 < n \<Longrightarrow> wf_path (NamespacePath (take n (components p)))"
  by (auto simp: wf_path_def dest: in_set_takeD)

lemma path_parent_wf: "wf_path p \<Longrightarrow> path_parent p = Some q \<Longrightarrow> wf_path q"
  by (auto simp: path_parent_def split: if_splits intro: wf_path_take)

lemma path_prefixes_wf: "wf_path p \<Longrightarrow> q \<in> set (path_prefixes p) \<Longrightarrow> wf_path q"
  by (auto simp: path_prefixes_def intro: wf_path_take)

lemma is_descendant_of_iff:
  "is_descendant_of p a \<longleftrightarrow> (\<exists>r. r \<noteq> [] \<and> components p = components a @ r)"
proof
  assume "is_descendant_of p a"
  then have "components p = components a @ drop (length (components a)) (components p)"
    and "drop (length (components a)) (components p) \<noteq> []"
    unfolding is_descendant_of_def by (metis append_take_drop_id, simp)
  then show "\<exists>r. r \<noteq> [] \<and> components p = components a @ r" by blast
qed (auto simp: is_descendant_of_def)

lemma path_prefixes_iff:
  "q \<in> set (path_prefixes p) \<longleftrightarrow> components q \<noteq> [] \<and> (\<exists>r. components p = components q @ r)"
proof
  assume "q \<in> set (path_prefixes p)"
  then obtain n where "1 \<le> n" "n \<le> length (components p)" "q = NamespacePath (take n (components p))"
    by (auto simp: path_prefixes_def)
  then show "components q \<noteq> [] \<and> (\<exists>r. components p = components q @ r)"
    by (auto intro: exI [of _ "drop n (components p)"])
next
  assume "components q \<noteq> [] \<and> (\<exists>r. components p = components q @ r)"
  then obtain r where q: "components q \<noteq> []" "components p = components q @ r" by blast
  then have "q = NamespacePath (take (length (components q)) (components p))" by simp
  moreover from q have "length (components q) \<in> set [1..<Suc (length (components p))]"
    by (auto simp: Suc_le_eq simp del: upt_Suc)
  ultimately
  show "q \<in> set (path_prefixes p)"
    unfolding path_prefixes_def set_map by blast
qed

lemma path_prefixes_sorted: "sorted_wrt (\<lambda>x y. is_descendant_of y x) (path_prefixes p)"
proof -
  have "sorted_wrt (\<lambda>m n. m < n \<and> n \<le> length (components p)) [1..<Suc (length (components p))]"
    by (rule sorted_wrt_mono_rel [OF _ sorted_wrt_upt]) auto
  then show ?thesis unfolding path_prefixes_def sorted_wrt_map
    by (rule sorted_wrt_mono_rel [rotated]) (auto simp: is_descendant_of_def min_def)
qed

section \<open>Resources\<close>

text \<open>
  The four resources that live in a namespace share the text \<open>KIND:DATABASE:NAMESPACE$LEAF\<close> and
  the body of their parser; they differ in the kind and in the validator of the leaf.
\<close>

definition print_leaf :: "string \<Rightarrow> string \<Rightarrow> namespace_path \<Rightarrow> string \<Rightarrow> string" where
  "print_leaf prefix database namespace leaf =
     prefix @ database @ CHR '':'' # path_to_string namespace @ CHR ''$'' # leaf"

definition validate_leaf :: "(string \<Rightarrow> unit result) \<Rightarrow> string \<Rightarrow> string \<Rightarrow> string + unit" where
  "validate_leaf validate database leaf =
     try_bind (map_err error_to_string (validate_database_name database))
       (\<lambda>_. map_err error_to_string (validate leaf))"

definition parse_leaf ::
    "string \<Rightarrow> string \<Rightarrow> (string \<Rightarrow> unit result) \<Rightarrow> string
      \<Rightarrow> string + string \<times> namespace_path \<times> string" where
  "parse_leaf prefix invalid validate s =
     try_bind (ok_or invalid (strip_prefix prefix s)) (\<lambda>rest.
     try_bind (ok_or invalid (split_once CHR '':'' rest)) (\<lambda>(database, path).
     try_bind (ok_or invalid (rsplit_once CHR ''$'' path)) (\<lambda>(namespace, leaf).
     try_bind (path_parse namespace) (\<lambda>ns.
     try_bind (validate_leaf validate database leaf) (\<lambda>_.
     Inr (database, ns, leaf))))))"

lemma validate_leaf_Inr_iff:
  "validate_leaf validate db leaf = Inr () \<longleftrightarrow> legal_database db \<and> validate leaf = Inr ()"
  by (simp add: validate_leaf_def try_bind_Inr_iff validate_database_name_iff)

lemma parse_leaf_sound:
  assumes "parse_leaf prefix invalid validate s = Inr (db, ns, leaf)"
  shows "s = print_leaf prefix db ns leaf \<and> legal_database db \<and> wf_path ns \<and> validate leaf = Inr ()"
  using assms
  by (auto simp: parse_leaf_def print_leaf_def try_bind_Inr_iff validate_leaf_Inr_iff
      strip_prefix_Some_iff path_codec.parse_iff split: prod.splits
      dest!: split_once_Some rsplit_once_Some)

context name_validator
begin

lemma parse_leaf_complete:
  assumes "legal_database db" "wf_path ns" "validate leaf = Inr ()"
  shows "parse_leaf prefix invalid validate (print_leaf prefix db ns leaf) = Inr (db, ns, leaf)"
proof -
  have "validate_leaf validate db leaf = Inr ()"
    using assms by (simp add: validate_leaf_Inr_iff)
  with assms show ?thesis
    by (simp add: parse_leaf_def print_leaf_def str_simps legal_database_no_sep path_split
        path_codec.parse_print)
qed

end


datatype database_object = DatabaseObject (db_database: string)

definition validate_database_object :: "database_object \<Rightarrow> string + unit" where
  "validate_database_object ob =
     map_err error_to_string (validate_database_name (db_database ob))"

definition print_database_object :: "database_object \<Rightarrow> string" where
  "print_database_object ob = ''database:'' @ db_database ob"

definition parse_database_object :: "string \<Rightarrow> string + database_object" where
  "parse_database_object s =
     try_bind (ok_or ''invalid DatabaseObject'' (strip_prefix ''database:'' s)) (\<lambda>database.
     try_bind (validate_database_object (DatabaseObject database)) (\<lambda>_.
     Inr (DatabaseObject database)))"

datatype namespace_object = NamespaceObject (ns_database: string) (ns_namespace: namespace_path)

definition validate_namespace_object :: "namespace_object \<Rightarrow> string + unit" where
  "validate_namespace_object ob =
     map_err error_to_string (validate_database_name (ns_database ob))"

definition print_namespace_object :: "namespace_object \<Rightarrow> string" where
  "print_namespace_object ob =
     ''namespace:'' @ ns_database ob @ CHR '':'' # path_to_string (ns_namespace ob)"

definition parse_namespace_object :: "string \<Rightarrow> string + namespace_object" where
  "parse_namespace_object s =
     try_bind (ok_or ''invalid NamespaceObject'' (strip_prefix ''namespace:'' s)) (\<lambda>rest.
     try_bind (ok_or ''invalid NamespaceObject'' (split_once CHR '':'' rest)) (\<lambda>(database, namespace).
     try_bind (path_parse namespace) (\<lambda>ns.
     try_bind (validate_namespace_object (NamespaceObject database ns)) (\<lambda>_.
     Inr (NamespaceObject database ns)))))"

datatype table_object =
  TableObject (tb_database: string) (tb_namespace: namespace_path) (tb_table: string)

definition validate_table_object :: "table_object \<Rightarrow> string + unit" where
  "validate_table_object ob = validate_leaf validate_table_name (tb_database ob) (tb_table ob)"

definition print_table_object :: "table_object \<Rightarrow> string" where
  "print_table_object ob = print_leaf ''table:'' (tb_database ob) (tb_namespace ob) (tb_table ob)"

definition parse_table_object :: "string \<Rightarrow> string + table_object" where
  "parse_table_object s =
     try_bind (parse_leaf ''table:'' ''invalid TableObject'' validate_table_name s)
       (\<lambda>(database, ns, table). Inr (TableObject database ns table))"

datatype view_object =
  ViewObject (vw_database: string) (vw_namespace: namespace_path) (vw_view: string)

definition validate_view_object :: "view_object \<Rightarrow> string + unit" where
  "validate_view_object ob = validate_leaf validate_view_name (vw_database ob) (vw_view ob)"

definition print_view_object :: "view_object \<Rightarrow> string" where
  "print_view_object ob = print_leaf ''view:'' (vw_database ob) (vw_namespace ob) (vw_view ob)"

definition parse_view_object :: "string \<Rightarrow> string + view_object" where
  "parse_view_object s =
     try_bind (parse_leaf ''view:'' ''invalid ViewObject'' validate_view_name s)
       (\<lambda>(database, ns, view). Inr (ViewObject database ns view))"

datatype secret_object =
  SecretObject (sc_database: string) (sc_namespace: namespace_path) (sc_secret: string)

definition validate_secret_object :: "secret_object \<Rightarrow> string + unit" where
  "validate_secret_object ob = validate_leaf validate_secret_name (sc_database ob) (sc_secret ob)"

definition print_secret_object :: "secret_object \<Rightarrow> string" where
  "print_secret_object ob = print_leaf ''secret:'' (sc_database ob) (sc_namespace ob) (sc_secret ob)"

definition parse_secret_object :: "string \<Rightarrow> string + secret_object" where
  "parse_secret_object s =
     try_bind (parse_leaf ''secret:'' ''invalid SecretObject'' validate_secret_name s)
       (\<lambda>(database, ns, secret). Inr (SecretObject database ns secret))"

text \<open>The source validates a function's name with the rule for tables.\<close>

datatype function_object =
  FunctionObject (fn_database: string) (fn_namespace: namespace_path) (fn_function: string)

definition validate_function_object :: "function_object \<Rightarrow> string + unit" where
  "validate_function_object ob = validate_leaf validate_table_name (fn_database ob) (fn_function ob)"

definition print_function_object :: "function_object \<Rightarrow> string" where
  "print_function_object ob =
     print_leaf ''function:'' (fn_database ob) (fn_namespace ob) (fn_function ob)"

definition parse_function_object :: "string \<Rightarrow> string + function_object" where
  "parse_function_object s =
     try_bind (parse_leaf ''function:'' ''invalid FunctionObject'' validate_table_name s)
       (\<lambda>(database, ns, function). Inr (FunctionObject database ns function))"

text \<open>
  Well-formed resources: the struct's validation succeeds and its path, if it has one, is one
  the crate can build.
\<close>

definition wf_database :: "database_object \<Rightarrow> bool" where
  "wf_database ob = is_ok (validate_database_object ob)"

definition wf_namespace :: "namespace_object \<Rightarrow> bool" where
  "wf_namespace ob = (is_ok (validate_namespace_object ob) \<and> wf_path (ns_namespace ob))"

definition wf_table :: "table_object \<Rightarrow> bool" where
  "wf_table ob = (is_ok (validate_table_object ob) \<and> wf_path (tb_namespace ob))"

definition wf_view :: "view_object \<Rightarrow> bool" where
  "wf_view ob = (is_ok (validate_view_object ob) \<and> wf_path (vw_namespace ob))"

definition wf_secret :: "secret_object \<Rightarrow> bool" where
  "wf_secret ob = (is_ok (validate_secret_object ob) \<and> wf_path (sc_namespace ob))"

definition wf_function :: "function_object \<Rightarrow> bool" where
  "wf_function ob = (is_ok (validate_function_object ob) \<and> wf_path (fn_namespace ob))"

lemmas wf_resource_defs = wf_database_def wf_namespace_def wf_table_def wf_view_def
  wf_secret_def wf_function_def validate_database_object_def validate_namespace_object_def
  validate_table_object_def validate_view_object_def validate_secret_object_def
  validate_function_object_def is_ok_unit validate_leaf_Inr_iff validate_database_name_iff

lemmas leaf_object_defs = parse_table_object_def print_table_object_def parse_view_object_def
  print_view_object_def parse_secret_object_def print_secret_object_def
  parse_function_object_def print_function_object_def

interpretation database_codec: wire_codec print_database_object parse_database_object wf_database
  by unfold_locales
    (auto simp: wf_resource_defs parse_database_object_def print_database_object_def
      try_bind_Inr_iff strip_prefix_Some_iff)

interpretation namespace_codec: wire_codec print_namespace_object parse_namespace_object wf_namespace
  by unfold_locales
    (auto simp: wf_resource_defs parse_namespace_object_def print_namespace_object_def
      try_bind_Inr_iff strip_prefix_Some_iff path_codec.parse_iff str_simps legal_database_no_sep
      dest!: split_once_Some)

interpretation table_codec: wire_codec print_table_object parse_table_object wf_table
  by unfold_locales
    (auto simp: wf_resource_defs leaf_object_defs try_bind_Inr_iff table_name.parse_leaf_complete
      dest!: parse_leaf_sound)

interpretation view_codec: wire_codec print_view_object parse_view_object wf_view
  by unfold_locales
    (auto simp: wf_resource_defs leaf_object_defs try_bind_Inr_iff view_name.parse_leaf_complete
      dest!: parse_leaf_sound)

interpretation secret_codec: wire_codec print_secret_object parse_secret_object wf_secret
  by unfold_locales
    (auto simp: wf_resource_defs leaf_object_defs try_bind_Inr_iff secret_name.parse_leaf_complete
      dest!: parse_leaf_sound)

interpretation function_codec: wire_codec print_function_object parse_function_object wf_function
  by unfold_locales
    (auto simp: wf_resource_defs leaf_object_defs try_bind_Inr_iff table_name.parse_leaf_complete
      dest!: parse_leaf_sound)

section \<open>Objects\<close>

datatype object =
    System
  | Database database_object
  | Namespace namespace_object
  | Table table_object
  | View view_object
  | Secret secret_object
  | Function function_object
  | Unknown string

fun validate_object :: "object \<Rightarrow> string + unit" where
  "validate_object System = Inr ()"
| "validate_object (Database ob) = validate_database_object ob"
| "validate_object (Namespace ob) = validate_namespace_object ob"
| "validate_object (Table ob) = validate_table_object ob"
| "validate_object (View ob) = validate_view_object ob"
| "validate_object (Secret ob) = validate_secret_object ob"
| "validate_object (Function ob) = validate_function_object ob"
| "validate_object (Unknown value) =
     (if value = [] then Inl ''object must not be empty'' else Inr ())"

fun object_database :: "object \<Rightarrow> string option" where
  "object_database System = None"
| "object_database (Database ob) = Some (db_database ob)"
| "object_database (Namespace ob) = Some (ns_database ob)"
| "object_database (Table ob) = Some (tb_database ob)"
| "object_database (View ob) = Some (vw_database ob)"
| "object_database (Secret ob) = Some (sc_database ob)"
| "object_database (Function ob) = Some (fn_database ob)"
| "object_database (Unknown _) = None"

fun type_name :: "object \<Rightarrow> string" where
  "type_name System = SYSTEM_TYPE_STRING"
| "type_name (Database _) = DATABASE_TYPE_STRING"
| "type_name (Namespace _) = NAMESPACE_TYPE_STRING"
| "type_name (Table _) = TABLE_TYPE_STRING"
| "type_name (View _) = VIEW_TYPE_STRING"
| "type_name (Secret _) = SECRET_TYPE_STRING"
| "type_name (Function _) = FUNCTION_TYPE_STRING"
| "type_name (Unknown _) = UNKNOWN_TYPE_STRING"

fun object_to_string :: "object \<Rightarrow> string" where
  "object_to_string System = SYSTEM_TYPE_STRING"
| "object_to_string (Database ob) = print_database_object ob"
| "object_to_string (Namespace ob) = print_namespace_object ob"
| "object_to_string (Table ob) = print_table_object ob"
| "object_to_string (View ob) = print_view_object ob"
| "object_to_string (Secret ob) = print_secret_object ob"
| "object_to_string (Function ob) = print_function_object ob"
| "object_to_string (Unknown s) = s"

definition object_serialize :: "object \<Rightarrow> string + string" where
  "object_serialize ob = try_bind (validate_object ob) (\<lambda>_. Inr (object_to_string ob))"

definition object_kind :: "string \<Rightarrow> string" where
  "object_kind s = hd (split_on CHR '':'' s)"

definition object_deserialize :: "string \<Rightarrow> string + object" where
  "object_deserialize s =
     (let kind = object_kind s in
      if s = SYSTEM_TYPE_STRING then Inr System
      else if s = [] \<or> kind = SYSTEM_TYPE_STRING then Inl ''invalid Object''
      else if kind = DATABASE_TYPE_STRING
      then try_bind (parse_database_object s) (\<lambda>ob. Inr (Database ob))
      else if kind = NAMESPACE_TYPE_STRING
      then try_bind (parse_namespace_object s) (\<lambda>ob. Inr (Namespace ob))
      else if kind = TABLE_TYPE_STRING
      then try_bind (parse_table_object s) (\<lambda>ob. Inr (Table ob))
      else if kind = VIEW_TYPE_STRING
      then try_bind (parse_view_object s) (\<lambda>ob. Inr (View ob))
      else if kind = SECRET_TYPE_STRING
      then try_bind (parse_secret_object s) (\<lambda>ob. Inr (Secret ob))
      else if kind = FUNCTION_TYPE_STRING
      then try_bind (parse_function_object s) (\<lambda>ob. Inr (Function ob))
      else Inr (Unknown s))"

definition object_from_str :: "string \<Rightarrow> error + object" where
  "object_from_str s = map_err InvalidInput (object_deserialize s)"

text \<open>
  The objects a client can send and read back: validation succeeds, the path is one the crate
  builds, and an \<open>Unknown\<close> object does not spell a kind this client knows.
\<close>

definition known_kinds :: "string list" where
  "known_kinds = [SYSTEM_TYPE_STRING, DATABASE_TYPE_STRING, NAMESPACE_TYPE_STRING,
     TABLE_TYPE_STRING, VIEW_TYPE_STRING, SECRET_TYPE_STRING, FUNCTION_TYPE_STRING]"

fun wf_object :: "object \<Rightarrow> bool" where
  "wf_object System = True"
| "wf_object (Database ob) = wf_database ob"
| "wf_object (Namespace ob) = wf_namespace ob"
| "wf_object (Table ob) = wf_table ob"
| "wf_object (View ob) = wf_view ob"
| "wf_object (Secret ob) = wf_secret ob"
| "wf_object (Function ob) = wf_function ob"
| "wf_object (Unknown s) = (s \<noteq> [] \<and> object_kind s \<notin> set known_kinds)"

lemma object_kind_prefix: "CHR '':'' \<notin> set k \<Longrightarrow> object_kind (k @ CHR '':'' # r) = k"
  by (simp add: object_kind_def str_simps)

lemma object_kind_printed:
  "object_kind (print_database_object dbo) = DATABASE_TYPE_STRING"
  "object_kind (print_namespace_object nso) = NAMESPACE_TYPE_STRING"
  "object_kind (print_table_object tbo) = TABLE_TYPE_STRING"
  "object_kind (print_view_object vwo) = VIEW_TYPE_STRING"
  "object_kind (print_secret_object sco) = SECRET_TYPE_STRING"
  "object_kind (print_function_object fno) = FUNCTION_TYPE_STRING"
  using object_kind_prefix [of DATABASE_TYPE_STRING] object_kind_prefix [of NAMESPACE_TYPE_STRING]
    object_kind_prefix [of TABLE_TYPE_STRING] object_kind_prefix [of VIEW_TYPE_STRING]
    object_kind_prefix [of SECRET_TYPE_STRING] object_kind_prefix [of FUNCTION_TYPE_STRING]
  by (simp_all add: type_strings print_database_object_def print_namespace_object_def
      leaf_object_defs print_leaf_def)

lemma printed_not_system:
  "print_database_object dbo \<noteq> SYSTEM_TYPE_STRING" "print_namespace_object nso \<noteq> SYSTEM_TYPE_STRING"
  "print_table_object tbo \<noteq> SYSTEM_TYPE_STRING" "print_view_object vwo \<noteq> SYSTEM_TYPE_STRING"
  "print_secret_object sco \<noteq> SYSTEM_TYPE_STRING" "print_function_object fno \<noteq> SYSTEM_TYPE_STRING"
  "print_database_object dbo \<noteq> []" "print_namespace_object nso \<noteq> []" "print_table_object tbo \<noteq> []"
  "print_view_object vwo \<noteq> []" "print_secret_object sco \<noteq> []" "print_function_object fno \<noteq> []"
  by (simp_all add: type_strings print_database_object_def print_namespace_object_def
      leaf_object_defs print_leaf_def)

lemmas object_codec_simps = object_kind_printed printed_not_system database_codec.parse_print
  namespace_codec.parse_print table_codec.parse_print view_codec.parse_print
  secret_codec.parse_print function_codec.parse_print

lemmas object_codec_literals = object_codec_simps [unfolded type_strings]

lemmas resource_parse_iffs = database_codec.parse_iff namespace_codec.parse_iff
  table_codec.parse_iff view_codec.parse_iff secret_codec.parse_iff function_codec.parse_iff

lemma object_kind_system: "object_kind SYSTEM_TYPE_STRING = SYSTEM_TYPE_STRING"
  by (simp add: object_kind_def type_strings)

interpretation object_codec: wire_codec object_to_string object_from_str wf_object
proof unfold_locales
  fix ob assume wf: "wf_object ob"
  show "object_from_str (object_to_string ob) = Inr ob"
  proof (cases ob)
    case (Unknown s)
    with wf have "s \<noteq> SYSTEM_TYPE_STRING" by (auto simp: known_kinds_def object_kind_system)
    with wf Unknown show ?thesis
      by (auto simp: object_from_str_def object_deserialize_def Let_def known_kinds_def)
  qed (use wf in \<open>simp_all add: object_from_str_def object_deserialize_def Let_def type_strings
        object_codec_literals\<close>)
next
  fix s ob assume parsed: "object_from_str s = Inr ob"
  then show "wf_object ob"
    by (auto simp: object_from_str_def object_deserialize_def Let_def try_bind_Inr_iff
        resource_parse_iffs known_kinds_def split: if_splits)
  from parsed show "object_to_string ob = s"
    by (auto simp: object_from_str_def object_deserialize_def Let_def try_bind_Inr_iff
        resource_parse_iffs split: if_splits)
qed

section \<open>The derived order\<close>

text \<open>
  \<^verbatim>\<open>#[derive(PartialOrd, Ord)]\<close> compares a path component by component and an object by its variant
  first, then by its fields in declaration order. \<open>object_key\<close> lists what is compared.
\<close>

instantiation namespace_path :: linorder
begin

definition less_eq_namespace_path :: "namespace_path \<Rightarrow> namespace_path \<Rightarrow> bool" where
  "less_eq_namespace_path p q = (components p \<le> components q)"

definition less_namespace_path :: "namespace_path \<Rightarrow> namespace_path \<Rightarrow> bool" where
  "less_namespace_path p q = (components p < components q)"

instance
  by intro_classes
    (auto simp: less_eq_namespace_path_def less_namespace_path_def namespace_path.expand)

end

fun object_key :: "object \<Rightarrow> nat \<times> string \<times> string list \<times> string" where
  "object_key System = (0, [], [], [])"
| "object_key (Database ob) = (1, db_database ob, [], [])"
| "object_key (Namespace ob) = (2, ns_database ob, components (ns_namespace ob), [])"
| "object_key (Table ob) = (3, tb_database ob, components (tb_namespace ob), tb_table ob)"
| "object_key (View ob) = (4, vw_database ob, components (vw_namespace ob), vw_view ob)"
| "object_key (Secret ob) = (5, sc_database ob, components (sc_namespace ob), sc_secret ob)"
| "object_key (Function ob) = (6, fn_database ob, components (fn_namespace ob), fn_function ob)"
| "object_key (Unknown s) = (7, s, [], [])"

lemma object_key_inject: "object_key a = object_key b \<longleftrightarrow> a = b"
  by (cases a; cases b)
    (auto simp: database_object.expand namespace_object.expand table_object.expand
      view_object.expand secret_object.expand function_object.expand namespace_path.expand)

instantiation object :: linorder
begin

definition less_eq_object :: "object \<Rightarrow> object \<Rightarrow> bool" where
  "less_eq_object a b = (object_key a \<le> object_key b)"

definition less_object :: "object \<Rightarrow> object \<Rightarrow> bool" where
  "less_object a b = (object_key a < object_key b)"

instance
  by intro_classes
    (auto simp: less_eq_object_def less_object_def object_key_inject [symmetric] simp del: object_key.simps)

end

lemma list_prefix_less: "r \<noteq> [] \<Longrightarrow> (xs :: 'a :: linorder list) < xs @ r"
  by (induction xs) (auto simp: neq_Nil_conv)

section \<open>Properties\<close>

text \<open>
  C11 (round trip). Printing a well-formed object and parsing the text gives the object back:
  what a client sends to the server and reads back is the same resource.
\<close>

theorem object_roundtrip: "wf_object ob \<Longrightarrow> object_from_str (object_to_string ob) = Inr ob"
  by (rule object_codec.parse_print)

theorem object_roundtrip_witness:
  "wf_object (Table (TableObject ''db'' (NamespacePath [''a'', ''b'']) ''t.1''))
   \<and> object_from_str ''table:db:a$b$t.1''
      = Inr (Table (TableObject ''db'' (NamespacePath [''a'', ''b'']) ''t.1''))"
proof -
  have wf: "wf_object (Table (TableObject ''db'' (NamespacePath [''a'', ''b'']) ''t.1''))"
    by code_simp
  have "object_to_string (Table (TableObject ''db'' (NamespacePath [''a'', ''b'']) ''t.1''))
      = ''table:db:a$b$t.1''"
    by code_simp
  with wf object_roundtrip [OF wf] show ?thesis by simp
qed

text \<open>
  C14 (canonical encoding). The parser accepts only canonical texts: an object that parses from a
  text is well-formed and prints as that very text, so no two texts name the same resource.
\<close>

theorem object_canonical:
  "object_from_str s = Inr ob \<Longrightarrow> wf_object ob \<and> object_to_string ob = s"
  by (simp add: object_codec.parse_wf object_codec.print_parse)

theorem object_canonical_witness:
  "object_from_str ''secret:tenant/db:a$b$key'' =
     Inr (Secret (SecretObject ''tenant/db'' (NamespacePath [''a'', ''b'']) ''key''))
   \<and> wf_object (Secret (SecretObject ''tenant/db'' (NamespacePath [''a'', ''b'']) ''key''))"
proof -
  have parsed: "object_from_str ''secret:tenant/db:a$b$key'' =
      Inr (Secret (SecretObject ''tenant/db'' (NamespacePath [''a'', ''b'']) ''key''))"
    by code_simp
  with object_canonical [OF parsed] show ?thesis by simp
qed

text \<open>
  C15 (namespace hierarchy). A well-formed path descends from another exactly when it extends it by at least one component. The
  cumulative prefixes of a path are exactly its ancestors and the path itself, one for each of its
  components, each one the ancestor of all later ones, and all well-formed. The parent is the path without its last component, and
  only a path of one component has none. A descendant sorts after its ancestor in the derived order.
\<close>
theorem namespace_hierarchy:
  assumes "wf_path p" and "wf_path a"
  shows "(is_descendant_of p a \<longleftrightarrow> (\<exists>r. r \<noteq> [] \<and> components p = components a @ r))
    \<and> (a \<in> set (path_prefixes p) \<longleftrightarrow> a = p \<or> is_descendant_of p a)
    \<and> length (path_prefixes p) = length (components p)
    \<and> sorted_wrt (\<lambda>x y. is_descendant_of y x) (path_prefixes p)
    \<and> (\<forall>q \<in> set (path_prefixes p). wf_path q)
    \<and> (path_parent p = Some a \<longleftrightarrow> (\<exists>c. components p = components a @ [c]))
    \<and> (path_parent p = None \<longleftrightarrow> (\<exists>c. components p = [c]))
    \<and> (is_descendant_of p a \<longrightarrow> a < p)"
proof (intro conjI)
  have ne: "components p \<noteq> []" "components a \<noteq> []" using assms by (simp_all add: wf_path_def)
  show "is_descendant_of p a \<longleftrightarrow> (\<exists>r. r \<noteq> [] \<and> components p = components a @ r)"
    by (rule is_descendant_of_iff)
  show "a \<in> set (path_prefixes p) \<longleftrightarrow> a = p \<or> is_descendant_of p a"
    using ne by (auto simp: is_descendant_of_iff path_prefixes_iff namespace_path.expand)
  show "length (path_prefixes p) = length (components p)" by (simp add: path_prefixes_def del: upt_Suc)
  show "sorted_wrt (\<lambda>x y. is_descendant_of y x) (path_prefixes p)" by (rule path_prefixes_sorted)
  show "\<forall>q \<in> set (path_prefixes p). wf_path q" using assms(1) path_prefixes_wf by blast
  show "path_parent p = Some a \<longleftrightarrow> (\<exists>c. components p = components a @ [c])"
    using ne by (cases "components p" rule: rev_cases) (auto simp: path_parent_def namespace_path.expand)
  show "path_parent p = None \<longleftrightarrow> (\<exists>c. components p = [c])"
    using ne by (cases "components p" rule: rev_cases) (auto simp: path_parent_def)
  show "is_descendant_of p a \<longrightarrow> a < p"
    by (auto simp: is_descendant_of_iff less_namespace_path_def intro: list_prefix_less)
qed

theorem namespace_hierarchy_witness:
  "is_descendant_of (NamespacePath [''a'', ''b'']) (NamespacePath [''a''])
   \<and> path_parent (NamespacePath [''a'', ''b'']) = Some (NamespacePath [''a''])
   \<and> NamespacePath [''a''] < NamespacePath [''a'', ''b'']"
proof -
  have wf: "wf_path (NamespacePath [''a'', ''b''])" "wf_path (NamespacePath [''a''])"
    by code_simp+
  have "is_descendant_of (NamespacePath [''a'', ''b'']) (NamespacePath [''a''])"
    by code_simp
  with namespace_hierarchy [OF wf] show ?thesis by simp
qed

end
