(* ===== verification/AuthzPrivilege.thy ===== *)
theory AuthzPrivilege
  imports AuthzObject
begin

text \<open>
  Privileges and subjects, \<^verbatim>\<open>src/rust/lancedb/src/authz/privilege.rs\<close> and
  \<^verbatim>\<open>src/rust/lancedb/src/authz/subject.rs\<close>: the names and numbers of the privileges, the objects
  each privilege is valid for, and the identity selectors with their wire text. A privilege has
  aliases (\<^verbatim>\<open>PRIVILEGE2\<close> is \<^verbatim>\<open>SELECT\<close>), so it interprets \<open>wire_reader\<close>; a subject interprets
  \<open>wire_codec\<close>.
\<close>

section \<open>Privileges\<close>

datatype privilege =
    Ownership | Usage | Select | Insert | Update | Delete | CreateDatabase | CreateNamespace
  | CreateTable | CreateMaterializedView | CreateView | CreateSecret | CreateFunction | Operate
  | UnknownPrivilege string

fun privilege_to_string :: "privilege \<Rightarrow> string" where
  "privilege_to_string Ownership = ''OWNERSHIP''"
| "privilege_to_string Usage = ''USAGE''"
| "privilege_to_string Select = ''SELECT''"
| "privilege_to_string Insert = ''INSERT''"
| "privilege_to_string Update = ''UPDATE''"
| "privilege_to_string Delete = ''DELETE''"
| "privilege_to_string CreateDatabase = ''CREATE_DATABASE''"
| "privilege_to_string CreateNamespace = ''CREATE_NAMESPACE''"
| "privilege_to_string CreateTable = ''CREATE_TABLE''"
| "privilege_to_string CreateMaterializedView = ''CREATE_MATERIALIZED_VIEW''"
| "privilege_to_string CreateView = ''CREATE_VIEW''"
| "privilege_to_string CreateSecret = ''CREATE_SECRET''"
| "privilege_to_string CreateFunction = ''CREATE_FUNCTION''"
| "privilege_to_string Operate = ''OPERATE''"
| "privilege_to_string (UnknownPrivilege s) = s"

definition KNOWN_privileges :: "privilege list" where
  "KNOWN_privileges =
     [Ownership, Usage, Select, Insert, Update, Delete, CreateDatabase, CreateNamespace,
      CreateTable, CreateMaterializedView, CreateView, CreateSecret, CreateFunction, Operate]"

fun is_unknown :: "privilege \<Rightarrow> bool" where
  "is_unknown (UnknownPrivilege _) = True"
| "is_unknown _ = False"

definition valid_for_system :: "privilege \<Rightarrow> bool" where
  "valid_for_system p = (p \<in> {Operate, CreateDatabase, Usage} \<or> is_unknown p)"

definition valid_for_database :: "privilege \<Rightarrow> bool" where
  "valid_for_database p = (p \<in> {Ownership, Usage, CreateNamespace} \<or> is_unknown p)"

definition valid_for_namespace :: "privilege \<Rightarrow> bool" where
  "valid_for_namespace p =
     (p \<in> {Ownership, Usage, CreateNamespace, CreateTable, CreateMaterializedView, CreateView,
           CreateSecret, CreateFunction} \<or> is_unknown p)"

definition valid_for_table :: "privilege \<Rightarrow> bool" where
  "valid_for_table p = (p \<in> {Ownership, Select, Insert, Update, Delete} \<or> is_unknown p)"

definition valid_for_view :: "privilege \<Rightarrow> bool" where
  "valid_for_view p = (p \<in> {Ownership, Select} \<or> is_unknown p)"

definition valid_for_secret :: "privilege \<Rightarrow> bool" where
  "valid_for_secret p = (p \<in> {Ownership, Usage, Update} \<or> is_unknown p)"

definition valid_for_function :: "privilege \<Rightarrow> bool" where
  "valid_for_function p = (p \<in> {Ownership, Usage} \<or> is_unknown p)"

definition is_write :: "privilege \<Rightarrow> bool" where
  "is_write p = (p \<notin> {Usage, Select, Operate})"

definition u64_max :: nat where "u64_max = 2 ^ 64 - 1"
definition u8_max :: nat where "u8_max = 2 ^ 8 - 1"

definition privilege_of_number :: "string \<Rightarrow> nat \<Rightarrow> privilege" where
  "privilege_of_number name n =
     (if n = 0 then Ownership else if n = 1 then Usage else if n = 2 then Select
      else if n = 3 then Insert else if n = 4 then Update else if n = 5 then Delete
      else if n = 6 then CreateDatabase else if n = 7 then CreateNamespace
      else if n = 8 then CreateTable else if n = 9 then CreateMaterializedView
      else if n = 10 then CreateView else if n = 11 then CreateSecret
      else if n = 12 then CreateFunction else if n = 13 then Operate
      else UnknownPrivilege name)"

definition privilege_of_digits :: "string \<Rightarrow> string \<Rightarrow> privilege" where
  "privilege_of_digits name digits =
     (case parse_uint u64_max digits of
        Some n \<Rightarrow> privilege_of_number name n
      | None \<Rightarrow> UnknownPrivilege name)"

definition privilege_from_str :: "string \<Rightarrow> string + privilege" where
  "privilege_from_str name =
     (case find (\<lambda>p. privilege_to_string p = name) KNOWN_privileges of
        Some p \<Rightarrow> Inr p
      | None \<Rightarrow>
         (case strip_prefix ''PRIVILEGE'' name of
            Some digits \<Rightarrow>
              if digits \<noteq> [] \<and> list_all is_ascii_digit digits
              then Inr (privilege_of_digits name digits)
              else Inl ''invalid privilege''
          | None \<Rightarrow> Inl ''invalid privilege''))"

text \<open>\<^verbatim>\<open>u8::try_from\<close>; \<^const>\<open>None\<close> is the \<^verbatim>\<open>ParseIntError\<close>.\<close>

fun privilege_to_u8 :: "privilege \<Rightarrow> nat option" where
  "privilege_to_u8 Ownership = Some 0"
| "privilege_to_u8 Usage = Some 1"
| "privilege_to_u8 Select = Some 2"
| "privilege_to_u8 Insert = Some 3"
| "privilege_to_u8 Update = Some 4"
| "privilege_to_u8 Delete = Some 5"
| "privilege_to_u8 CreateDatabase = Some 6"
| "privilege_to_u8 CreateNamespace = Some 7"
| "privilege_to_u8 CreateTable = Some 8"
| "privilege_to_u8 CreateMaterializedView = Some 9"
| "privilege_to_u8 CreateView = Some 10"
| "privilege_to_u8 CreateSecret = Some 11"
| "privilege_to_u8 CreateFunction = Some 12"
| "privilege_to_u8 Operate = Some 13"
| "privilege_to_u8 (UnknownPrivilege s) = parse_uint u8_max (drop (length ''PRIVILEGE'') s)"

text \<open>
  The field of \<^verbatim>\<open>UnknownPrivilege\<close> is private, so the only unknown privileges are those the parser
  builds: \<^verbatim>\<open>PRIVILEGE\<close> and digits of an unassigned number.
\<close>

fun wf_privilege :: "privilege \<Rightarrow> bool" where
  "wf_privilege (UnknownPrivilege s) =
     (\<exists>ds. s = ''PRIVILEGE'' @ ds \<and> ds \<noteq> [] \<and> list_all is_ascii_digit ds \<and> 14 \<le> digits_value 0 ds)"
| "wf_privilege _ = True"

lemma KNOWN_privileges_iff: "p \<in> set KNOWN_privileges \<longleftrightarrow> \<not> is_unknown p"
  by (cases p) (auto simp: KNOWN_privileges_def)

lemma find_known_None_iff:
  "find (\<lambda>p. privilege_to_string p = name) KNOWN_privileges = None \<longleftrightarrow>
     name \<notin> privilege_to_string ` set KNOWN_privileges"
  by (auto simp: find_None_iff)

lemma find_known: "\<not> is_unknown p \<Longrightarrow>
    find (\<lambda>q. privilege_to_string q = privilege_to_string p) KNOWN_privileges = Some p"
  by (cases p) (simp_all add: KNOWN_privileges_def)

lemma find_numeric:
  "find (\<lambda>p. privilege_to_string p = ''PRIVILEGE'' @ ds) KNOWN_privileges = None"
  by (simp add: KNOWN_privileges_def)

lemma privilege_from_digits:
  "ds \<noteq> [] \<Longrightarrow> list_all is_ascii_digit ds \<Longrightarrow>
    privilege_from_str (''PRIVILEGE'' @ ds) = Inr (privilege_of_digits (''PRIVILEGE'' @ ds) ds)"
  unfolding privilege_from_str_def find_numeric strip_prefix_append by simp


lemma wf_known: "p \<in> set KNOWN_privileges \<Longrightarrow> wf_privilege p"
  by (cases p) (auto simp: KNOWN_privileges_def)

lemma privilege_of_number_small:
  "n < 14 \<Longrightarrow> \<not> is_unknown (privilege_of_number name n)"
  "n < 14 \<Longrightarrow> privilege_to_u8 (privilege_of_number name n) = Some n"
  by (auto simp: privilege_of_number_def less_Suc_eq eval_nat_numeral)

lemma privilege_of_number_large: "14 \<le> n \<Longrightarrow> privilege_of_number name n = UnknownPrivilege name"
  by (auto simp: privilege_of_number_def)

lemma privilege_of_digits_wf:
  assumes "ds \<noteq> []" "list_all is_ascii_digit ds"
  shows "wf_privilege (privilege_of_digits (''PRIVILEGE'' @ ds) ds)"
proof (cases "digits_value 0 ds < 14")
  case True
  then show ?thesis using assms
    by (simp add: privilege_of_digits_def parse_uint_digits u64_max_def wf_known
        KNOWN_privileges_iff privilege_of_number_small)
next
  case False
  then have "privilege_of_digits (''PRIVILEGE'' @ ds) ds = UnknownPrivilege (''PRIVILEGE'' @ ds)"
    using assms by (auto simp: privilege_of_digits_def parse_uint_digits privilege_of_number_large)
  with False assms show ?thesis by auto
qed

interpretation privilege_reader: wire_reader privilege_to_string privilege_from_str wf_privilege
proof unfold_locales
  fix p assume wf: "wf_privilege p"
  show "privilege_from_str (privilege_to_string p) = Inr p"
  proof (cases "is_unknown p")
    case True
    then obtain s where p: "p = UnknownPrivilege s" by (cases p) auto
    with wf obtain ds where ds: "s = ''PRIVILEGE'' @ ds" "ds \<noteq> []" "list_all is_ascii_digit ds"
      "14 \<le> digits_value 0 ds" by auto
    then have "privilege_of_digits s ds = UnknownPrivilege s"
      by (auto simp: privilege_of_digits_def parse_uint_digits privilege_of_number_large)
    with privilege_from_digits [OF ds(2,3)] show ?thesis
      unfolding p privilege_to_string.simps ds(1) by (simp only:)
  next
    case False
    then show ?thesis by (simp add: privilege_from_str_def find_known)
  qed
next
  fix s p assume "privilege_from_str s = Inr p"
  then show "wf_privilege p"
    by (auto simp: privilege_from_str_def find_Some_iff strip_prefix_Some_iff
        split: option.splits if_splits
        intro: wf_known privilege_of_digits_wf privilege_of_digits_wf [simplified] nth_mem)
qed

section \<open>Subjects\<close>

datatype subject_kind =
  PrincipalId | PrincipalName | GroupId | GroupName | Role | PrincipalApiKey | UnknownSubject

fun kind_as_str :: "subject_kind \<Rightarrow> string" where
  "kind_as_str PrincipalId = ''principal_id''"
| "kind_as_str PrincipalName = ''principal_name''"
| "kind_as_str GroupId = ''group_id''"
| "kind_as_str GroupName = ''group_name''"
| "kind_as_str Role = ''role''"
| "kind_as_str PrincipalApiKey = ''principal_api_key''"
| "kind_as_str UnknownSubject = ''unknown''"

fun kind_prefix :: "subject_kind \<Rightarrow> string" where
  "kind_prefix PrincipalId = ''p:''"
| "kind_prefix PrincipalName = ''P:''"
| "kind_prefix GroupId = ''g:''"
| "kind_prefix GroupName = ''G:''"
| "kind_prefix Role = ''r:''"
| "kind_prefix PrincipalApiKey = ''a:''"
| "kind_prefix UnknownSubject = []"

definition KINDS :: "subject_kind list" where
  "KINDS = [PrincipalId, PrincipalName, GroupId, GroupName, Role, PrincipalApiKey]"

definition kind_from_str :: "string \<Rightarrow> subject_kind result" where
  "kind_from_str value =
     (if value = ''unknown'' then Inr UnknownSubject
      else ok_or (InvalidInput ''Invalid subject kind'')
             (find (\<lambda>kind. kind_as_str kind = value) KINDS))"

record subject =
  subject_kind :: subject_kind
  subject_value :: string

definition starts_with :: "string \<Rightarrow> string \<Rightarrow> bool" where
  "starts_with s p = (strip_prefix p s \<noteq> None)"

definition subject_new :: "subject_kind \<Rightarrow> string \<Rightarrow> subject result" where
  "subject_new kind value =
     (if value = [] then Inl (InvalidInput ''Subject value must be a nonempty string'')
      else if kind = UnknownSubject
        \<and> (\<not> (case split_once CHR '':'' value of
                 Some (prefix, rest) \<Rightarrow> prefix \<noteq> [] \<and> rest \<noteq> []
               | None \<Rightarrow> False)
           \<or> list_ex (\<lambda>k. starts_with value (kind_prefix k)) KINDS)
      then Inl (InvalidInput ''Invalid unknown subject selector'')
      else Inr \<lparr>subject_kind = kind, subject_value = value\<rparr>)"

definition display_value :: "subject \<Rightarrow> string" where
  "display_value s =
     (if subject_kind s = PrincipalApiKey then ''<redacted>'' else subject_value s)"

definition to_wire :: "subject \<Rightarrow> string" where
  "to_wire s = kind_prefix (subject_kind s) @ subject_value s"

text \<open>The loop over \<^verbatim>\<open>KINDS\<close>: the first kind whose prefix the text has.\<close>

fun subject_from_kinds :: "subject_kind list \<Rightarrow> string \<Rightarrow> subject result" where
  "subject_from_kinds [] value = subject_new UnknownSubject value"
| "subject_from_kinds (kind # kinds) value =
     (case strip_prefix (kind_prefix kind) value of
        Some rest \<Rightarrow> subject_new kind rest
      | None \<Rightarrow> subject_from_kinds kinds value)"

definition subject_from_str :: "string \<Rightarrow> subject result" where
  "subject_from_str value = subject_from_kinds KINDS value"

definition from_canonical :: "string \<Rightarrow> subject result" where
  "from_canonical value =
     try_bind (subject_from_str value) (\<lambda>s.
       if subject_kind s \<notin> {PrincipalId, GroupId, Role, UnknownSubject}
       then Inl (InvalidInput ''Server returned a non-canonical subject'')
       else Inr s)"

definition validate_principal :: "subject \<Rightarrow> unit result" where
  "validate_principal s =
     (if subject_kind s \<in> {PrincipalId, PrincipalName, PrincipalApiKey} then Inr ()
      else Inl (InvalidInput ''Subject kind is not valid for a principal lookup''))"

definition validate_group :: "subject \<Rightarrow> unit result" where
  "validate_group s =
     (if subject_kind s \<in> {GroupId, GroupName} then Inr ()
      else Inl (InvalidInput ''Subject kind is not valid for a group lookup''))"

definition validate_role_member :: "subject \<Rightarrow> unit result" where
  "validate_role_member s =
     (if subject_kind s = Role
      then Inl (InvalidInput ''Roles cannot be members of other roles'') else Inr ())"

definition subject_display :: "subject \<Rightarrow> string" where
  "subject_display s = kind_prefix (subject_kind s) @ display_value s"

text \<open>The fields are private: a subject is one that \<^const>\<open>subject_new\<close> accepts.\<close>

definition wf_subject :: "subject \<Rightarrow> bool" where
  "wf_subject s = (subject_new (subject_kind s) (subject_value s) = Inr s)"

lemma subject_new_Inr: "subject_new k v = Inr s \<Longrightarrow> s = \<lparr>subject_kind = k, subject_value = v\<rparr>"
  by (auto simp: subject_new_def split: if_splits)

lemma subject_new_wf: "subject_new k v = Inr s \<Longrightarrow> wf_subject s"
  using subject_new_Inr by (fastforce simp: wf_subject_def)

lemma starts_with_iff: "starts_with s p \<longleftrightarrow> (\<exists>r. s = p @ r)"
  by (metis not_None_eq starts_with_def strip_prefix_Some_iff)

lemma subject_from_kinds_sound:
  "subject_from_kinds ks v = Inr s \<Longrightarrow> wf_subject s \<and> to_wire s = v"
proof (induction ks)
  case Nil
  then show ?case by (auto dest: subject_new_Inr subject_new_wf simp: to_wire_def)
next
  case (Cons k ks)
  then show ?case
    by (auto simp: strip_prefix_Some_iff to_wire_def split: option.splits
        dest: subject_new_Inr subject_new_wf)
qed

lemma subject_from_kinds_none:
  "\<forall>k \<in> set ks. \<not> starts_with v (kind_prefix k) \<Longrightarrow>
    subject_from_kinds ks v = subject_new UnknownSubject v"
  by (induction ks) (auto simp: starts_with_def)

interpretation subject_codec: wire_codec to_wire subject_from_str wf_subject
proof unfold_locales
  fix s assume wf: "wf_subject s"
  show "subject_from_str (to_wire s) = Inr s"
  proof (cases "subject_kind s")
    case UnknownSubject
    with wf have "\<forall>k \<in> set KINDS. \<not> starts_with (subject_value s) (kind_prefix k)"
      by (auto simp: wf_subject_def subject_new_def list_ex_iff split: if_splits)
    then show ?thesis using wf UnknownSubject
      by (simp add: subject_from_str_def to_wire_def subject_from_kinds_none wf_subject_def)
  qed (use wf in \<open>simp_all add: subject_from_str_def to_wire_def KINDS_def wf_subject_def\<close>)
next
  fix v s assume "subject_from_str v = Inr s"
  then show "wf_subject s" "to_wire s = v"
    by (simp_all add: subject_from_str_def subject_from_kinds_sound)
qed

section \<open>Properties\<close>

text \<open>
  C16 (privilege names). A privilege the crate can hold prints to a text that parses to the same
  privilege, so distinct privileges have distinct names; whatever parses is such a privilege.
\<close>

theorem privilege_roundtrip:
  "(wf_privilege p \<longrightarrow> privilege_from_str (privilege_to_string p) = Inr p)
   \<and> (privilege_from_str s = Inr p \<longrightarrow> wf_privilege p)"
  by (simp add: privilege_reader.parse_print privilege_reader.parse_wf)

theorem privilege_roundtrip_witness:
  "privilege_from_str (privilege_to_string CreateMaterializedView) = Inr CreateMaterializedView
   \<and> wf_privilege (UnknownPrivilege ''PRIVILEGE256'')"
proof -
  have wf: "wf_privilege CreateMaterializedView" by simp
  have parsed: "privilege_from_str ''PRIVILEGE256'' = Inr (UnknownPrivilege ''PRIVILEGE256'')"
    by code_simp
  show ?thesis
    using wf privilege_roundtrip [of CreateMaterializedView]
      parsed privilege_roundtrip [of "UnknownPrivilege ''PRIVILEGE256''" "''PRIVILEGE256''"]
    by blast
qed

text \<open>
  C17 (privilege numbers). Every number up to 255 names a privilege through its alias
  \<^verbatim>\<open>PRIVILEGE<n>\<close>, and that privilege converts back to the number; a number above 255 names
  an unknown privilege that has no u8.
\<close>

theorem privilege_numbers:
  "\<exists>p. privilege_from_str (''PRIVILEGE'' @ show_nat n) = Inr p
     \<and> privilege_to_u8 p = (if n \<le> u8_max then Some n else None)"
proof -
  let ?name = "''PRIVILEGE'' @ show_nat n"
  have parsed: "privilege_from_str ?name = Inr (privilege_of_digits ?name (show_nat n))"
    by (rule privilege_from_digits) (simp_all add: show_nat_digits)
  have unknown: "privilege_to_u8 (UnknownPrivilege ?name) = (if n \<le> u8_max then Some n else None)"
    by (simp add: parse_uint_digits show_nat_digits digits_value_show_nat)
  have "privilege_to_u8 (privilege_of_digits ?name (show_nat n))
      = (if n \<le> u8_max then Some n else None)"
  proof (cases "n < 14")
    case True
    then show ?thesis
      by (simp add: privilege_of_digits_def parse_uint_digits show_nat_digits
          digits_value_show_nat u64_max_def u8_max_def privilege_of_number_small)
  next
    case False
    then have "privilege_of_digits ?name (show_nat n) = UnknownPrivilege ?name"
      by (simp add: privilege_of_digits_def privilege_of_number_large parse_uint_digits
          show_nat_digits digits_value_show_nat)
    with unknown show ?thesis by (simp only:)
  qed
  with parsed show ?thesis by blast
qed

text \<open>
  C18 (subject round trip and canonical form). A text parses to a subject exactly when that
  subject is well-formed and the text is its wire form, so no selector is changed on its way
  through the client and no two texts select the same subject.
\<close>

theorem subject_wire: "subject_from_str v = Inr s \<longleftrightarrow> wf_subject s \<and> to_wire s = v"
  by (rule subject_codec.parse_iff)

text \<open>
  C19 (API keys stay secret). What is displayed of an API-key subject does not depend on the
  key, and a subject accepted from a server response is never an API key or a provider name.
\<close>

theorem subject_redaction:
  "(subject_kind s = PrincipalApiKey \<and> subject_kind t = PrincipalApiKey
      \<longrightarrow> subject_display s = subject_display t)
   \<and> (from_canonical v = Inr s
      \<longrightarrow> subject_kind s \<notin> {PrincipalApiKey, PrincipalName, GroupName} \<and> to_wire s = v)"
  by (auto simp: subject_display_def display_value_def from_canonical_def try_bind_Inr_iff
      subject_codec.parse_iff split: if_splits)

theorem subject_redaction_witness:
  "subject_display \<lparr>subject_kind = PrincipalApiKey, subject_value = ''k1''\<rparr>
     = subject_display \<lparr>subject_kind = PrincipalApiKey, subject_value = ''k2''\<rparr>
   \<and> to_wire \<lparr>subject_kind = UnknownSubject, subject_value = ''x:future''\<rparr> = ''x:future''"
proof -
  have canon: "from_canonical ''x:future''
      = Inr \<lparr>subject_kind = UnknownSubject, subject_value = ''x:future''\<rparr>"
    by code_simp
  show ?thesis
    using subject_redaction [of "\<lparr>subject_kind = PrincipalApiKey, subject_value = ''k1''\<rparr>"
        "\<lparr>subject_kind = PrincipalApiKey, subject_value = ''k2''\<rparr>"]
      canon subject_redaction [of "\<lparr>subject_kind = UnknownSubject, subject_value = ''x:future''\<rparr>"
        _ "''x:future''"]
    by simp
qed

end
