(* ===== verification/Streams.thy ===== *)
theory Streams
  imports Prelude
begin

text \<open>
  Record-batch streams and the two stream adapters of \<^verbatim>\<open>utils/mod.rs\<close>. A batch is the list of its
  rows. An inner stream is the list of the answers its successive polls give, after which it has
  ended. The locale \<open>scripted\<close> is what a consumer of a stream relies on: there is a view, the answers
  still to come, and every poll delivers the next of them. It is interpreted on the inner stream
  and on both adapters; the properties compare an adapter's view with that of its inner stream.
\<close>

section \<open>Polling\<close>

datatype df_error = Execution string | DfOther string

datatype 'i poll = Pending | Ready "'i option"

type_synonym 'r df_item = "df_error + 'r list"
type_synonym 'r script = "'r df_item poll list"

definition inner_poll :: "'i poll list \<Rightarrow> 'i poll \<times> 'i poll list" where
  "inner_poll s = (case s of [] \<Rightarrow> (Ready None, []) | x # xs \<Rightarrow> (x, xs))"

text \<open>The answers of \<open>n\<close> polls.\<close>

fun run_polls :: "('s \<Rightarrow> 'i poll \<times> 's) \<Rightarrow> nat \<Rightarrow> 's \<Rightarrow> 'i poll list" where
  "run_polls p 0 s = []"
| "run_polls p (Suc n) s = (let (a, s') = p s in a # run_polls p n s')"

text \<open>The rows delivered by a list of answers, in order.\<close>

definition delivered :: "'r script \<Rightarrow> 'r list" where
  "delivered as = concat (map (\<lambda>a. case a of Ready (Some (Inr b)) \<Rightarrow> b | _ \<Rightarrow> []) as)"

lemma take_replicate_Suc: "take j (xs @ replicate (Suc j) x) = take j (xs @ replicate j x)"
  by (simp add: take_replicate min_def del: replicate_Suc)

locale scripted =
  fixes poll :: "'s \<Rightarrow> 'i poll \<times> 's"
    and view :: "'s \<Rightarrow> 'i poll list"
    and inv :: "'s \<Rightarrow> bool"
  assumes inv_poll: "inv s \<Longrightarrow> poll s = (a, s') \<Longrightarrow> inv s'"
    and poll_end: "inv s \<Longrightarrow> view s = [] \<Longrightarrow> poll s = (a, s') \<Longrightarrow> a = Ready None \<and> view s' = []"
    and poll_next: "inv s \<Longrightarrow> view s = x # xs \<Longrightarrow> poll s = (a, s') \<Longrightarrow> a = x \<and> view s' = xs"
begin

lemma run_polls_ended: "inv s \<Longrightarrow> view s = [] \<Longrightarrow> run_polls poll n s = replicate n (Ready None)"
proof (induction n arbitrary: s)
  case (Suc n)
  obtain a s' where p: "poll s = (a, s')" by force
  have "a = Ready None" "view s' = []" using poll_end [OF Suc.prems p] by auto
  with Suc.IH [OF inv_poll [OF Suc.prems(1) p]] p show ?case by simp
qed simp

lemma run_polls_view: "inv s \<Longrightarrow> run_polls poll n s = take n (view s @ replicate n (Ready None))"
proof (induction n arbitrary: s)
  case (Suc n)
  obtain a s' where p: "poll s = (a, s')" by force
  show ?case
  proof (cases "view s")
    case Nil
    with Suc.prems p show ?thesis using run_polls_ended [of s "Suc n"] by simp
  next
    case (Cons x xs)
    have "a = x" "view s' = xs" using poll_next [OF Suc.prems Cons p] by auto
    with Suc.IH [OF inv_poll [OF Suc.prems p]] p Cons show ?thesis
      by (simp add: take_replicate_Suc del: take_append replicate_Suc)
  qed
qed simp

lemma run_polls_all: "inv s \<Longrightarrow> run_polls poll (length (view s)) s = view s"
  by (simp add: run_polls_view)

end

interpretation inner_stream: scripted inner_poll "\<lambda>s. s" "\<lambda>_. True"
  by unfold_locales (auto simp: inner_poll_def split: list.splits)

section \<open>The batch-length limit\<close>

record 'r max_batch_stream =
  inner :: "'r script"
  max_batch_length :: "nat option"
  buffered_batch :: "'r list option"
  buffered_offset :: nat

definition max_batch_new :: "'r script \<Rightarrow> nat \<Rightarrow> 'r max_batch_stream" where
  "max_batch_new i m =
     \<lparr>inner = i, max_batch_length = (if 0 < m then Some m else None),
      buffered_batch = None, buffered_offset = 0\<rparr>"

text \<open>\<^verbatim>\<open>batch.slice(offset, length)\<close>.\<close>

definition slice :: "nat \<Rightarrow> nat \<Rightarrow> 'r list \<Rightarrow> 'r list" where
  "slice off len b = take len (drop off b)"

text \<open>\<^verbatim>\<open>poll_next\<close>: the loop repeats only after it has buffered an oversized batch.\<close>

function max_batch_poll :: "'r max_batch_stream \<Rightarrow> 'r df_item poll \<times> 'r max_batch_stream" where
  "max_batch_poll s =
     (case max_batch_length s of
        None \<Rightarrow> (let (a, i) = inner_poll (inner s) in (a, s\<lparr>inner := i\<rparr>))
      | Some m \<Rightarrow>
          (case buffered_batch s of
             Some b \<Rightarrow>
               if buffered_offset s < length b
               then let len = min (length b - buffered_offset s) m;
                        sliced = slice (buffered_offset s) len b;
                        off = buffered_offset s + len;
                        s' = (if length b \<le> off
                              then s\<lparr>buffered_batch := None, buffered_offset := 0\<rparr>
                              else s\<lparr>buffered_offset := off\<rparr>)
                    in (Ready (Some (Inr sliced)), s')
               else (case inner_poll (inner s) of
                       (Ready (Some (Inr c)), i) \<Rightarrow>
                         if length c \<le> m
                         then (Ready (Some (Inr c)),
                               s\<lparr>inner := i, buffered_batch := None, buffered_offset := 0\<rparr>)
                         else max_batch_poll
                               (s\<lparr>inner := i, buffered_batch := Some c, buffered_offset := 0\<rparr>)
                     | (a, i) \<Rightarrow> (a, s\<lparr>inner := i, buffered_batch := None, buffered_offset := 0\<rparr>))
           | None \<Rightarrow>
               (case inner_poll (inner s) of
                  (Ready (Some (Inr c)), i) \<Rightarrow>
                    if length c \<le> m then (Ready (Some (Inr c)), s\<lparr>inner := i\<rparr>)
                    else max_batch_poll
                          (s\<lparr>inner := i, buffered_batch := Some c, buffered_offset := 0\<rparr>)
                | (a, i) \<Rightarrow> (a, s\<lparr>inner := i\<rparr>))))"
  by pat_completeness auto
termination
  by (relation "measure (\<lambda>s. length (inner s))") (auto simp: inner_poll_def split: list.splits)

declare max_batch_poll.simps [simp del]

text \<open>\<^verbatim>\<open>new_boxed\<close>: with no limit the inner stream is returned as it is, which the adapter without a
  limit also does.\<close>

text \<open>Reference: a batch cut into pieces of at most \<open>m\<close> rows.\<close>

function chunks :: "nat \<Rightarrow> 'r list \<Rightarrow> 'r list list" where
  "chunks m b = (if m = 0 \<or> length b \<le> m then [b] else take m b # chunks m (drop m b))"
  by pat_completeness auto
termination
  by (relation "measure (\<lambda>(m, b). length b)") auto

declare chunks.simps [simp del]

fun expand_answer :: "nat \<Rightarrow> 'r df_item poll \<Rightarrow> 'r script" where
  "expand_answer m (Ready (Some (Inr b))) = map (\<lambda>c. Ready (Some (Inr c))) (chunks m b)"
| "expand_answer m a = [a]"

definition max_batch_view :: "'r max_batch_stream \<Rightarrow> 'r script" where
  "max_batch_view s =
     (case max_batch_length s of
        None \<Rightarrow> inner s
      | Some m \<Rightarrow>
          (case buffered_batch s of
             Some b \<Rightarrow> if buffered_offset s < length b
                       then expand_answer m (Ready (Some (Inr (drop (buffered_offset s) b)))) else []
           | None \<Rightarrow> [])
          @ concat (map (expand_answer m) (inner s)))"

definition max_batch_inv :: "'r max_batch_stream \<Rightarrow> bool" where
  "max_batch_inv s = (max_batch_length s \<noteq> Some 0)"

lemma chunks_small: "length b \<le> m \<Longrightarrow> chunks m b = [b]"
  by (simp add: chunks.simps)

lemma chunks_step: "0 < m \<Longrightarrow> m < length b \<Longrightarrow> chunks m b = take m b # chunks m (drop m b)"
  by (subst chunks.simps) simp

lemma concat_chunks [simp]: "concat (chunks m b) = b"
  by (induction m b rule: chunks.induct) (subst chunks.simps, simp)

lemma chunks_bounded: "0 < m \<Longrightarrow> c \<in> set (chunks m b) \<Longrightarrow> length c \<le> m"
proof (induction m b rule: chunks.induct)
  case (1 m b)
  then show ?case by (cases "length b \<le> m") (auto simp: chunks_small chunks_step)
qed

lemma delivered_append [simp]: "delivered (xs @ ys) = delivered xs @ delivered ys"
  by (simp add: delivered_def)

lemma delivered_concat: "delivered (concat xss) = concat (map delivered xss)"
  by (induction xss) (auto simp: delivered_def)

lemma delivered_expand_answer: "delivered (expand_answer m a) = delivered [a]"
  by (cases "(m, a)" rule: expand_answer.cases) (auto simp: delivered_def comp_def)

text \<open>The unfolding of one poll by what the inner stream answers.\<close>

lemma max_batch_poll_buffered:
  assumes m: "max_batch_length s = Some m" "0 < m" and b: "buffered_batch s = Some b"
    and off: "buffered_offset s < length b" and poll: "max_batch_poll s = (a, s')"
  shows "max_batch_view s = a # max_batch_view s' \<and> max_batch_length s' = Some m"
proof -
  let ?rest = "drop (buffered_offset s) b" and ?len = "min (length b - buffered_offset s) m"
  have a: "a = Ready (Some (Inr (take ?len ?rest)))"
    and s': "s' = (if length b \<le> buffered_offset s + ?len
                   then s\<lparr>buffered_batch := None, buffered_offset := 0\<rparr>
                   else s\<lparr>buffered_offset := buffered_offset s + ?len\<rparr>)"
    using poll by (simp_all add: max_batch_poll.simps [of s] m b off slice_def Let_def)
  show ?thesis
  proof (cases "length ?rest \<le> m")
    case True
    then have "length b \<le> buffered_offset s + ?len" by simp
    with True show ?thesis by (simp add: a s' max_batch_view_def m b off chunks_small)
  next
    case False
    then have "?len = m" by simp
    moreover have "chunks m ?rest = take m ?rest # chunks m (drop m ?rest)"
      using m(2) False by (intro chunks_step) auto
    moreover have "\<not> length b \<le> m + buffered_offset s" using False by simp
    ultimately show ?thesis by (simp add: a s' max_batch_view_def m b off add.commute)
  qed
qed

lemma max_batch_poll_drained:
  assumes "max_batch_length s = Some m" "\<forall>b. buffered_batch s = Some b \<longrightarrow> length b \<le> buffered_offset s"
    "0 < m" "max_batch_poll s = (a, s')"
  shows "max_batch_length s' = Some m \<and>
         (if inner s = [] then a = Ready None \<and> max_batch_view s' = []
          else max_batch_view s = a # max_batch_view s')"
proof (cases "\<exists>c i. inner s = Ready (Some (Inr c)) # i \<and> m < length c")
  case True
  then obtain c i where i: "inner s = Ready (Some (Inr c)) # i" "m < length c" by blast
  let ?t = "s\<lparr>inner := i, buffered_batch := Some c, buffered_offset := 0\<rparr>"
  have "max_batch_poll ?t = (a, s')"
    using assms i by (auto simp: max_batch_poll.simps [of s] inner_poll_def split: option.splits)
  then have "max_batch_view ?t = a # max_batch_view s' \<and> max_batch_length s' = Some m"
    using assms i by (intro max_batch_poll_buffered) auto
  moreover have "max_batch_view s = max_batch_view ?t"
    using assms i by (auto simp: max_batch_view_def split: option.splits)
  ultimately show ?thesis using i by simp
next
  case False
  show ?thesis
  proof (cases "inner s")
    case Nil
    then show ?thesis using assms
      by (auto simp: max_batch_poll.simps [of s] max_batch_view_def inner_poll_def split: option.splits)
  next
    case (Cons x xs)
    then show ?thesis using assms False
      by (cases "(m, x)" rule: expand_answer.cases)
        (auto simp: max_batch_poll.simps [of s] max_batch_view_def inner_poll_def chunks_small
          split: option.splits)
  qed
qed

lemma max_batch_poll_unlimited:
  assumes "max_batch_length s = None" "max_batch_poll s = (a, s')"
  shows "max_batch_length s' = None \<and>
         (if inner s = [] then a = Ready None \<and> max_batch_view s' = []
          else max_batch_view s = a # max_batch_view s')"
  using assms by (cases "inner s")
    (auto simp: max_batch_poll.simps [of s] max_batch_view_def inner_poll_def)

lemma max_batch_poll_law:
  assumes "max_batch_inv s" "max_batch_poll s = (a, s')"
  shows "max_batch_inv s' \<and>
         (max_batch_view s = [] \<and> a = Ready None \<and> max_batch_view s' = []
          \<or> max_batch_view s = a # max_batch_view s')"
proof (cases "max_batch_length s")
  case None
  with max_batch_poll_unlimited [OF None assms(2)] show ?thesis
    by (auto simp: max_batch_inv_def max_batch_view_def split: if_splits)
next
  case (Some m)
  with assms have m: "0 < m" by (auto simp: max_batch_inv_def)
  show ?thesis
  proof (cases "\<forall>b. buffered_batch s = Some b \<longrightarrow> length b \<le> buffered_offset s")
    case True
    have "inner s = [] \<Longrightarrow> max_batch_view s = []"
      using Some True by (auto simp: max_batch_view_def split: option.splits)
    with max_batch_poll_drained [OF Some True m assms(2)] m show ?thesis
      by (auto simp: max_batch_inv_def split: if_splits)
  next
    case False
    then obtain b where "buffered_batch s = Some b" "buffered_offset s < length b" by auto
    with max_batch_poll_buffered [OF Some m _ _ assms(2)] m show ?thesis
      by (auto simp: max_batch_inv_def)
  qed
qed

interpretation max_batch: scripted max_batch_poll max_batch_view max_batch_inv
  by unfold_locales (metis max_batch_poll_law list.inject list.distinct(1))+

lemma max_batch_new_inv: "max_batch_inv (max_batch_new i m)"
  by (simp add: max_batch_new_def max_batch_inv_def)

lemma max_batch_new_view: "max_batch_view (max_batch_new i m) = (if m = 0 then i else concat (map (expand_answer m) i))"
  by (auto simp: max_batch_new_def max_batch_view_def)

section \<open>The timeout\<close>

datatype timeout_state = NotStarted nat | Started nat | Completed

text \<open>\<open>timer\<close> holds the answers of the successive polls of the deadline the runtime gives, \<^term>\<open>True\<close> once
  it has passed; durations are in nanoseconds.\<close>

record 'r timeout_stream =
  timed_inner :: "'r script"
  timed_state :: timeout_state
  timer :: "bool list"

definition timeout_new :: "'r script \<Rightarrow> nat \<Rightarrow> bool list \<Rightarrow> 'r timeout_stream" where
  "timeout_new i t ts = \<lparr>timed_inner = i, timed_state = NotStarted t, timer = ts\<rparr>"

definition timeout_error :: "nat \<Rightarrow> df_error" where
  "timeout_error t = Execution (''Query timeout after '' @ show_nat (t div 10 ^ 6) @ '' ms'')"

definition poll_timer :: "bool list \<Rightarrow> bool \<times> bool list" where
  "poll_timer ts = (case ts of [] \<Rightarrow> (False, []) | x # xs \<Rightarrow> (x, xs))"

definition started_poll :: "nat \<Rightarrow> 'r timeout_stream \<Rightarrow> 'r df_item poll \<times> 'r timeout_stream" where
  "started_poll t s =
     (case poll_timer (timer s) of
        (True, ts) \<Rightarrow> (Ready (Some (Inl (timeout_error t))), s\<lparr>timed_state := Completed, timer := ts\<rparr>)
      | (False, ts) \<Rightarrow> (let (a, i) = inner_poll (timed_inner s) in (a, s\<lparr>timed_inner := i, timer := ts\<rparr>)))"

definition timeout_poll :: "'r timeout_stream \<Rightarrow> 'r df_item poll \<times> 'r timeout_stream" where
  "timeout_poll s =
     (case timed_state s of
        NotStarted t \<Rightarrow>
          if t = 0 then (Ready (Some (Inl (timeout_error t))), s)
          else started_poll t (s\<lparr>timed_state := Started t\<rparr>)
      | Started t \<Rightarrow> started_poll t s
      | Completed \<Rightarrow> (Ready None, s))"

fun until_deadline :: "nat \<Rightarrow> 'r script \<Rightarrow> bool list \<Rightarrow> 'r script" where
  "until_deadline t i [] = i"
| "until_deadline t i (True # ts) = [Ready (Some (Inl (timeout_error t)))]"
| "until_deadline t i (False # ts) = fst (inner_poll i) # until_deadline t (snd (inner_poll i)) ts"

definition timeout_view :: "'r timeout_stream \<Rightarrow> 'r script" where
  "timeout_view s =
     (case timed_state s of
        NotStarted t \<Rightarrow> until_deadline t (timed_inner s) (timer s)
      | Started t \<Rightarrow> until_deadline t (timed_inner s) (timer s)
      | Completed \<Rightarrow> [])"

definition timeout_inv :: "'r timeout_stream \<Rightarrow> bool" where
  "timeout_inv s = (timed_state s \<noteq> NotStarted 0)"

lemma until_deadline_poll:
  "until_deadline t i ts =
     (if fst (poll_timer ts) then [Ready (Some (Inl (timeout_error t)))]
      else if ts = [] \<and> i = [] then []
      else fst (inner_poll i) # until_deadline t (snd (inner_poll i)) (snd (poll_timer ts)))"
  by (cases ts; cases "hd ts"; cases i) (auto simp: poll_timer_def inner_poll_def)

lemma started_poll_law:
  assumes "timed_state s = Started t" "started_poll t s = (a, s')"
  shows "timeout_inv s' \<and>
         (timeout_view s = [] \<and> a = Ready None \<and> timeout_view s' = []
          \<or> timeout_view s = a # timeout_view s')"
  using assms until_deadline_poll [of t "timed_inner s" "timer s"]
  by (auto simp: started_poll_def timeout_view_def timeout_inv_def poll_timer_def inner_poll_def
      split: bool.splits list.splits if_splits)

lemma timeout_poll_law:
  assumes "timeout_inv s" "timeout_poll s = (a, s')"
  shows "timeout_inv s' \<and>
         (timeout_view s = [] \<and> a = Ready None \<and> timeout_view s' = []
          \<or> timeout_view s = a # timeout_view s')"
proof (cases "timed_state s")
  case (NotStarted t)
  with assms have "started_poll t (s\<lparr>timed_state := Started t\<rparr>) = (a, s')"
    by (auto simp: timeout_poll_def timeout_inv_def)
  from started_poll_law [OF _ this] NotStarted show ?thesis by (simp add: timeout_view_def)
next
  case (Started t)
  with assms started_poll_law show ?thesis by (auto simp: timeout_poll_def)
next
  case Completed
  with assms show ?thesis by (auto simp: timeout_poll_def timeout_view_def timeout_inv_def)
qed

interpretation timeout: scripted timeout_poll timeout_view timeout_inv
  by unfold_locales (metis timeout_poll_law list.inject list.distinct(1))+

lemma until_deadline_at:
  "until_deadline t i (replicate k False @ True # ts)
     = take k (i @ replicate k (Ready None)) @ [Ready (Some (Inl (timeout_error t)))]"
proof (induction k arbitrary: i)
  case (Suc k)
  show ?case
  proof (cases i)
    case Nil
    then show ?thesis using Suc [of "[]"] by (simp add: inner_poll_def)
  next
    case (Cons x xs)
    have "until_deadline t i (replicate (Suc k) False @ True # ts)
            = x # until_deadline t xs (replicate k False @ True # ts)"
      using Cons by (simp add: inner_poll_def)
    then show ?thesis using Cons Suc [of xs] take_replicate_Suc [of k xs]
      by (simp del: take_append replicate_Suc)
  qed
qed simp

section \<open>Properties\<close>

text \<open>The errors among a list of answers, in order.\<close>

definition failures :: "'r script \<Rightarrow> df_error list" where
  "failures as = concat (map (\<lambda>a. case a of Ready (Some (Inl e)) \<Rightarrow> [e] | _ \<Rightarrow> []) as)"

lemma failures_append: "failures (xs @ ys) = failures xs @ failures ys"
  by (simp add: failures_def)

lemma failures_concat: "failures (concat xss) = concat (map failures xss)"
  by (induction xss) (auto simp: failures_def)

lemma failures_expand_answer: "failures (expand_answer m a) = failures [a]"
  by (cases "(m, a)" rule: expand_answer.cases) (auto simp: failures_def comp_def)

lemma expanded_rows: "delivered (concat (map (expand_answer m) i)) = delivered i"
proof -
  have "delivered i = concat (map (\<lambda>a. delivered [a]) i)" by (simp add: delivered_def)
  then show ?thesis by (simp add: delivered_concat comp_def delivered_expand_answer)
qed

lemma expanded_failures: "failures (concat (map (expand_answer m) i)) = failures i"
proof -
  have "failures i = concat (map (\<lambda>a. failures [a]) i)" by (simp add: failures_def)
  then show ?thesis by (simp add: failures_concat comp_def failures_expand_answer)
qed

lemma expanded_bounded:
  "0 < m \<Longrightarrow> Ready (Some (Inr b)) \<in> set (expand_answer m a) \<Longrightarrow> length b \<le> m"
  by (cases "(m, a)" rule: expand_answer.cases) (auto dest: chunks_bounded)

text \<open>
  C23 (batch-length limit). Whatever the inner stream answers, limiting its batches keeps its rows and its errors, in order,
  and no batch delivered within any number of polls exceeds a positive limit.
\<close>
theorem max_batch_stream:
  fixes i :: "'r script"
  shows "(\<exists>N. \<forall>n \<ge> N. delivered (run_polls max_batch_poll n (max_batch_new i m)) = delivered i
                     \<and> failures (run_polls max_batch_poll n (max_batch_new i m)) = failures i)
         \<and> (0 < m \<longrightarrow> (\<forall>n b. Ready (Some (Inr b)) \<in> set (run_polls max_batch_poll n (max_batch_new i m))
                            \<longrightarrow> length b \<le> m))"
proof (intro conjI impI allI)
  let ?s = "max_batch_new i m" and ?i = "max_batch_view (max_batch_new i m)"
  have run: "run_polls max_batch_poll n ?s = take n (?i @ replicate n (Ready None))" for n
    by (rule max_batch.run_polls_view) (rule max_batch_new_inv)
  have nil: "delivered (replicate k (Ready None :: 'r df_item poll)) = []"
    "failures (replicate k (Ready None :: 'r df_item poll)) = []" for k
    by (induction k) (auto simp: delivered_def failures_def)
  have "delivered (run_polls max_batch_poll n ?s) = delivered i
        \<and> failures (run_polls max_batch_poll n ?s) = failures i" if "length ?i \<le> n" for n
    using that nil by (simp add: run max_batch_new_view expanded_rows expanded_failures
        failures_append take_replicate)
  then show "\<exists>N. \<forall>n \<ge> N. delivered (run_polls max_batch_poll n ?s) = delivered i
                    \<and> failures (run_polls max_batch_poll n ?s) = failures i" by blast
  fix n b
  assume m: "0 < m" and b: "Ready (Some (Inr b)) \<in> set (run_polls max_batch_poll n ?s)"
  from b have "Ready (Some (Inr b)) \<in> set ?i" by (auto simp: run dest: in_set_takeD)
  then show "length b \<le> m" using m by (auto simp: max_batch_new_view dest: expanded_bounded)
qed

theorem max_batch_stream_witness:
  "(0::nat) < 2
   \<and> run_polls max_batch_poll 5
       (max_batch_new [Ready (Some (Inr [1, 2, 3 :: nat])), Pending, Ready (Some (Inl (DfOther ''e'')))] 2)
     = [Ready (Some (Inr [1, 2])), Ready (Some (Inr [3])), Pending, Ready (Some (Inl (DfOther ''e''))), Ready None]
   \<and> length [1, 2 :: nat] \<le> 2"
proof -
  let ?i = "[Ready (Some (Inr [1, 2, 3 :: nat])), Pending, Ready (Some (Inl (DfOther ''e'')))]"
  have run: "run_polls max_batch_poll 5 (max_batch_new ?i 2)
     = [Ready (Some (Inr [1, 2])), Ready (Some (Inr [3])), Pending, Ready (Some (Inl (DfOther ''e''))), Ready None]"
    by code_simp
  have "Ready (Some (Inr [1, 2])) \<in> set (run_polls max_batch_poll 5 (max_batch_new ?i 2))"
    unfolding run by simp
  then have "length [1, 2 :: nat] \<le> 2"
    by (rule max_batch_stream [THEN conjunct2, rule_format, rotated]) simp
  with run show ?thesis by simp
qed

text \<open>A zero timeout is answered before the state is advanced: every poll gives the error again and the
  stream does not end.\<close>

lemma timeout_zero:
  "run_polls timeout_poll n (timeout_new i 0 ts) = replicate n (Ready (Some (Inl (timeout_error 0))))"
proof -
  have "timeout_poll (timeout_new i 0 ts) = (Ready (Some (Inl (timeout_error 0))), timeout_new i 0 ts)"
    by (simp add: timeout_poll_def timeout_new_def)
  then show ?thesis by (induction n) simp_all
qed

text \<open>
  C24 (timeout). With a positive timeout whose deadline passes at the poll after \<open>k\<close> others, those \<open>k\<close>
  polls answer what the inner stream answers, the next one is the timeout error, and then the
  stream has ended. With a timeout of zero every poll answers the timeout error and the stream never ends.
\<close>
theorem timeout_stream:
  "run_polls timeout_poll n (timeout_new i t (replicate k False @ True # ts))
   = (if t = 0 then replicate n (Ready (Some (Inl (timeout_error 0))))
      else take n (take k (i @ replicate k (Ready None))
                   @ Ready (Some (Inl (timeout_error t))) # replicate n (Ready None)))"
proof (cases "t = 0")
  case True
  then show ?thesis by (simp add: timeout_zero)
next
  case False
  then have "timeout_inv (timeout_new i t (replicate k False @ True # ts))"
    by (simp add: timeout_new_def timeout_inv_def)
  from timeout.run_polls_view [OF this] False show ?thesis
    by (simp add: timeout_view_def timeout_new_def until_deadline_at del: take_append)
qed

theorem timeout_stream_witness:
  "run_polls timeout_poll 4 (timeout_new [Ready (Some (Inr [7 :: nat])), Pending, Pending] 3000000 [False, False, True])
     = [Ready (Some (Inr [7])), Pending, Ready (Some (Inl (Execution ''Query timeout after 3 ms''))), Ready None]"
proof -
  have timer: "replicate 2 False @ True # [] = [False, False, True]" by code_simp
  have answers: "take 4 (take 2 ([Ready (Some (Inr [7 :: nat])), Pending, Pending] @ replicate 2 (Ready None))
                   @ Ready (Some (Inl (timeout_error 3000000))) # replicate 4 (Ready None))
        = [Ready (Some (Inr [7])), Pending, Ready (Some (Inl (Execution ''Query timeout after 3 ms''))), Ready None]"
    by code_simp
  show ?thesis
    using timeout_stream [of 4 "[Ready (Some (Inr [7 :: nat])), Pending, Pending]" 3000000 2 "[]"]
    unfolding timer answers by simp
qed

end
