(* ===== verification/Floats.thy ===== *)
theory Floats
  imports Complex_Main Prelude
begin

text \<open>
  The floating-point operations the components use, for IEEE 754 formats given by their precision
  and exponent range (\<^verbatim>\<open>f64\<close> and \<^verbatim>\<open>f32\<close>). A finite value is the rational it denotes; an operation
  computes the exact rational result and rounds it to nearest, ties to even, with gradual underflow
  and overflow to infinity. The sign of a zero is not represented: no modelled operation
  observes it. The lemmas are the ones the components need: an integer the format represents is a
  fence that rounding does not cross.
\<close>

section \<open>Rounding\<close>

datatype float = Fin rat | PosInf | NegInf | NaN

text \<open>Precision in bits, least exponent of a subnormal bit, exponent above the largest finite.\<close>

record float_format =
  precision :: nat
  min_exp :: int
  max_exp :: int

definition f64_format :: float_format where
  "f64_format = \<lparr>precision = 53, min_exp = - 1074, max_exp = 1024\<rparr>"

definition f32_format :: float_format where
  "f32_format = \<lparr>precision = 24, min_exp = - 149, max_exp = 128\<rparr>"

definition pow2 :: "int \<Rightarrow> rat" where
  "pow2 e = (if 0 \<le> e then 2 ^ nat e else 1 / 2 ^ nat (- e))"

definition round_half_even :: "rat \<Rightarrow> int" where
  "round_half_even x =
     (let f = \<lfloor>x\<rfloor>; d = x - of_int f
      in if d < 1 / 2 then f else if 1 / 2 < d then f + 1 else if even f then f else f + 1)"

text \<open>The number of bits of a natural number, and the exponent of a positive rational.\<close>

fun bit_length :: "nat \<Rightarrow> nat" where
  "bit_length n = (if n = 0 then 0 else Suc (bit_length (n div 2)))"

declare bit_length.simps [simp del]

definition exponent :: "rat \<Rightarrow> int" where
  "exponent x =
     (let (a, b) = quotient_of x;
          e = int (bit_length (nat a)) - int (bit_length (nat b))
      in if pow2 e \<le> x then e else e - 1)"

text \<open>The unit in the last place of a result of magnitude \<open>x\<close>, and the rounding itself.\<close>

definition ulp :: "float_format \<Rightarrow> rat \<Rightarrow> rat" where
  "ulp fmt x = pow2 (max (exponent x + 1 - int (precision fmt)) (min_exp fmt))"

definition round_pos :: "float_format \<Rightarrow> rat \<Rightarrow> rat" where
  "round_pos fmt x = of_int (round_half_even (x / ulp fmt x)) * ulp fmt x"

definition fl :: "float_format \<Rightarrow> rat \<Rightarrow> float" where
  "fl fmt x =
     (if x = 0 then Fin 0
      else let r = round_pos fmt \<bar>x\<bar>
           in if max_exp fmt \<le> exponent r then (if 0 < x then PosInf else NegInf)
              else Fin (if 0 < x then r else - r))"

section \<open>Arithmetic\<close>

fun float_add :: "float_format \<Rightarrow> float \<Rightarrow> float \<Rightarrow> float" where
  "float_add fmt (Fin x) (Fin y) = fl fmt (x + y)"
| "float_add fmt NaN y = NaN"
| "float_add fmt x NaN = NaN"
| "float_add fmt PosInf NegInf = NaN"
| "float_add fmt NegInf PosInf = NaN"
| "float_add fmt PosInf y = PosInf"
| "float_add fmt x PosInf = PosInf"
| "float_add fmt NegInf y = NegInf"
| "float_add fmt x NegInf = NegInf"

fun float_neg :: "float \<Rightarrow> float" where
  "float_neg (Fin x) = Fin (- x)"
| "float_neg PosInf = NegInf"
| "float_neg NegInf = PosInf"
| "float_neg NaN = NaN"

definition float_sub :: "float_format \<Rightarrow> float \<Rightarrow> float \<Rightarrow> float" where
  "float_sub fmt x y = float_add fmt x (float_neg y)"

definition inf_of :: "rat \<Rightarrow> float" where
  "inf_of s = (if s = 0 then NaN else if 0 < s then PosInf else NegInf)"

fun float_mul :: "float_format \<Rightarrow> float \<Rightarrow> float \<Rightarrow> float" where
  "float_mul fmt (Fin x) (Fin y) = fl fmt (x * y)"
| "float_mul fmt NaN y = NaN"
| "float_mul fmt x NaN = NaN"
| "float_mul fmt PosInf PosInf = PosInf"
| "float_mul fmt PosInf NegInf = NegInf"
| "float_mul fmt NegInf PosInf = NegInf"
| "float_mul fmt NegInf NegInf = PosInf"
| "float_mul fmt PosInf (Fin y) = inf_of y"
| "float_mul fmt (Fin x) PosInf = inf_of x"
| "float_mul fmt NegInf (Fin y) = inf_of (- y)"
| "float_mul fmt (Fin x) NegInf = inf_of (- x)"

fun float_abs :: "float \<Rightarrow> float" where
  "float_abs (Fin x) = Fin \<bar>x\<bar>"
| "float_abs PosInf = PosInf"
| "float_abs NegInf = PosInf"
| "float_abs NaN = NaN"

text \<open>Comparison: every comparison with a NaN is false.\<close>

fun float_less :: "float \<Rightarrow> float \<Rightarrow> bool" where
  "float_less (Fin x) (Fin y) = (x < y)"
| "float_less NaN y = False"
| "float_less x NaN = False"
| "float_less NegInf NegInf = False"
| "float_less NegInf y = True"
| "float_less x NegInf = False"
| "float_less PosInf y = False"
| "float_less x PosInf = True"

text \<open>\<^verbatim>\<open>as f64\<close> from an unsigned integer, \<^verbatim>\<open>round\<close> (half away from zero) and the saturating \<^verbatim>\<open>as u64\<close>.\<close>

definition float_of_nat :: "float_format \<Rightarrow> nat \<Rightarrow> float" where
  "float_of_nat fmt n = fl fmt (of_nat n)"

definition round_half_away :: "rat \<Rightarrow> int" where
  "round_half_away x = (if 0 \<le> x then \<lfloor>x + 1 / 2\<rfloor> else - \<lfloor>- x + 1 / 2\<rfloor>)"

fun float_round :: "float \<Rightarrow> float" where
  "float_round (Fin x) = Fin (of_int (round_half_away x))"
| "float_round x = x"

fun float_to_u64 :: "float \<Rightarrow> nat" where
  "float_to_u64 (Fin x) = min (nat (if 0 \<le> x then \<lfloor>x\<rfloor> else 0)) (2 ^ 64 - 1)"
| "float_to_u64 PosInf = 2 ^ 64 - 1"
| "float_to_u64 NegInf = 0"
| "float_to_u64 NaN = 0"

text \<open>\<^verbatim>\<open>iter().sum::<f64>()\<close>.\<close>

definition float_sum :: "float_format \<Rightarrow> float list \<Rightarrow> float" where
  "float_sum fmt xs = foldl (float_add fmt) (Fin 0) xs"

abbreviation f64_add :: "float \<Rightarrow> float \<Rightarrow> float" where "f64_add \<equiv> float_add f64_format"
abbreviation f64_sub :: "float \<Rightarrow> float \<Rightarrow> float" where "f64_sub \<equiv> float_sub f64_format"
abbreviation f64_mul :: "float \<Rightarrow> float \<Rightarrow> float" where "f64_mul \<equiv> float_mul f64_format"
abbreviation f64_of_nat :: "nat \<Rightarrow> float" where "f64_of_nat \<equiv> float_of_nat f64_format"
abbreviation f64_sum :: "float list \<Rightarrow> float" where "f64_sum \<equiv> float_sum f64_format"

section \<open>Bounds\<close>

lemma pow2_pos [simp]: "0 < pow2 e"
  by (simp add: pow2_def)

lemma round_half_even_le: "x \<le> of_int m \<Longrightarrow> round_half_even x \<le> m"
proof -
  assume le: "x \<le> of_int m"
  have f: "of_int \<lfloor>x\<rfloor> \<le> x" "x < of_int \<lfloor>x\<rfloor> + 1" by linarith+
  show ?thesis
  proof (cases "\<lfloor>x\<rfloor> < m")
    case True
    then show ?thesis by (auto simp: round_half_even_def Let_def)
  next
    case False
    with le have "\<lfloor>x\<rfloor> = m" by (metis floor_le_iff floor_less_iff linorder_not_le order_antisym_conv of_int_floor_le le_floor_iff not_less_iff_gr_or_eq order_trans of_int_le_iff)
    with le f have "x = of_int m" by linarith
    then show ?thesis by (simp add: round_half_even_def)
  qed
qed

lemma round_half_even_ge: "of_int m \<le> x \<Longrightarrow> m \<le> round_half_even x"
  by (auto simp: round_half_even_def Let_def le_floor_iff) (metis le_floor_iff less_add_one order_less_imp_le order_trans)+

lemma round_half_even_int [simp]: "round_half_even (of_int m) = m"
  by (simp add: round_half_even_def)

lemma pow2_add: "pow2 (a + b) = pow2 a * pow2 b"
proof -
  have "pow2 e = 2 powi e" for e by (simp add: pow2_def power_int_def field_simps)
  then show ?thesis by (simp add: power_int_add)
qed

lemma pow2_nat [simp]: "pow2 (int n) = 2 ^ n"
  by (simp add: pow2_def)

lemma pow2_mono: "a \<le> b \<Longrightarrow> pow2 a \<le> pow2 b"
proof -
  assume "a \<le> b"
  then obtain k where "b = a + int k" using zle_iff_zadd by blast
  then show ?thesis by (simp add: pow2_add)
qed

lemma pow2_less_cancel: "pow2 a < pow2 b \<Longrightarrow> a < b"
  by (meson linorder_not_le pow2_mono)

lemma bit_length_bounds: "n < 2 ^ bit_length n \<and> (0 < n \<longrightarrow> 2 ^ bit_length n \<le> 2 * n)"
proof (induction n rule: bit_length.induct)
  case (1 n)
  show ?case
  proof (cases "n = 0")
    case True then show ?thesis by (simp add: bit_length.simps)
  next
    case False
    with 1 have ih: "n div 2 < 2 ^ bit_length (n div 2)"
      "0 < n div 2 \<longrightarrow> 2 ^ bit_length (n div 2) \<le> 2 * (n div 2)" by auto
    have bl: "bit_length n = Suc (bit_length (n div 2))" using False by (subst bit_length.simps) simp
    show ?thesis
    proof (cases "n div 2 = 0")
      case True
      with False have "n = 1" by linarith
      then show ?thesis by (simp add: bit_length.simps)
    next
      case False
      with ih bl show ?thesis by auto
    qed
  qed
qed

lemma exponent_le: "0 < x \<Longrightarrow> pow2 (exponent x) \<le> x"
proof -
  assume x: "0 < x"
  obtain a b where q: "quotient_of x = (a, b)" by force
  have b: "0 < b" using quotient_of_denom_pos q by auto
  have xab: "x = of_int a / of_int b" using q by (rule quotient_of_div)
  with x b have a: "0 < a" by (simp add: zero_less_divide_iff)
  let ?la = "bit_length (nat a)" and ?lb = "bit_length (nat b)"
  have "2 ^ ?la \<le> 2 * nat a" using bit_length_bounds a by simp
  then have "int (2 ^ ?la) \<le> int (2 * nat a)" by (simp only: of_nat_le_iff)
  then have A: "(2::int) ^ ?la \<le> 2 * a" using a by simp
  have "int (nat b) < int (2 ^ ?lb)" using bit_length_bounds by (simp only: of_nat_less_iff)
  then have B: "b < (2::int) ^ ?lb" using b by simp
  have Ar: "(2::rat) ^ ?la \<le> 2 * of_int a" using A by (metis of_int_le_iff of_int_mult of_int_numeral of_int_power)
  have Br: "of_int b \<le> (2::rat) ^ ?lb" using B by (metis less_imp_le of_int_le_iff of_int_numeral of_int_power)
  have p: "pow2 (int ?la - int ?lb - 1) * 2 ^ ?lb * 2 = 2 ^ ?la"
    using pow2_add [of "int ?la - int ?lb - 1" "int ?lb + 1"] by (simp add: pow2_add pow2_def [of 1])
  have "pow2 (int ?la - int ?lb - 1) * of_int b \<le> pow2 (int ?la - int ?lb - 1) * 2 ^ ?lb"
    using Br by (intro mult_left_mono) (simp_all add: less_imp_le)
  also have "\<dots> \<le> of_int a" using p Ar by linarith
  finally have "pow2 (int ?la - int ?lb - 1) \<le> x" using b by (simp add: xab pos_le_divide_eq)
  then show ?thesis by (simp add: exponent_def q Let_def)
qed

lemma exponent_less: "0 \<le> x \<Longrightarrow> x < pow2 k \<Longrightarrow> 0 \<le> k \<Longrightarrow> exponent x < k"
proof (cases "x = 0")
  case True
  moreover assume "0 \<le> k"
  moreover have "exponent 0 = - 2" by code_simp
  ultimately show ?thesis by simp
next
  case False
  moreover assume "0 \<le> x" "x < pow2 k"
  ultimately show ?thesis using exponent_le [of x] by (intro pow2_less_cancel) simp
qed

text \<open>Below \<^term>\<open>2 ^ precision fmt\<close> rounding does not cross an integer.\<close>

lemma round_pos_fence:
  assumes x: "0 < x" "x \<le> of_nat n" and n: "n < 2 ^ precision fmt" and e: "min_exp fmt \<le> 0"
  shows "0 \<le> round_pos fmt x" "round_pos fmt x \<le> of_nat n"
proof -
  let ?k = "max (exponent x + 1 - int (precision fmt)) (min_exp fmt)"
  have "pow2 (exponent x) \<le> of_nat n" using exponent_le [OF x(1)] x(2) by simp
  also have "of_nat n < (of_nat (2 ^ precision fmt) :: rat)" using n by (simp only: of_nat_less_iff)
  also have "\<dots> = pow2 (int (precision fmt))" by simp
  finally have "exponent x < int (precision fmt)" by (rule pow2_less_cancel)
  then have k: "?k \<le> 0" using e by simp
  then have u: "pow2 ?k * 2 ^ nat (- ?k) = 1" by (simp add: pow2_def)
  have pos: "0 < pow2 ?k" by simp
  have "x / pow2 ?k \<le> of_int (int n * 2 ^ nat (- ?k))"
    using x(2) u pos by (simp add: pos_divide_le_eq mult.assoc) (metis mult.commute mult.right_neutral)
  then have "round_half_even (x / pow2 ?k) \<le> int n * 2 ^ nat (- ?k)" by (rule round_half_even_le)
  then have "of_int (round_half_even (x / pow2 ?k)) \<le> (of_int (int n * 2 ^ nat (- ?k)) :: rat)"
    by (simp only: of_int_le_iff)
  then have "of_int (round_half_even (x / pow2 ?k)) * pow2 ?k \<le> of_nat n * (2 ^ nat (- ?k) * pow2 ?k)"
    using pos by (simp add: mult.assoc [symmetric])
  then show "round_pos fmt x \<le> of_nat n"
    using u by (simp only: round_pos_def ulp_def mult.commute [of "2 ^ nat (- ?k)"] mult_1_right)
  have "of_int 0 \<le> x / pow2 ?k" using x(1) pos by (simp add: less_imp_le)
  then have "0 \<le> round_half_even (x / pow2 ?k)" by (rule round_half_even_ge)
  then show "0 \<le> round_pos fmt x" using pos by (simp add: round_pos_def ulp_def less_imp_le)
qed

lemma round_pos_nat:
  assumes n: "0 < n" "n < 2 ^ precision fmt" and e: "min_exp fmt \<le> 0"
  shows "round_pos fmt (of_nat n) = of_nat n"
proof -
  let ?x = "of_nat n :: rat"
  let ?k = "max (exponent ?x + 1 - int (precision fmt)) (min_exp fmt)"
  have "pow2 (exponent ?x) \<le> ?x" using n by (intro exponent_le) simp
  also have "?x < of_nat (2 ^ precision fmt)" using n by (simp only: of_nat_less_iff)
  also have "\<dots> = pow2 (int (precision fmt))" by simp
  finally have "exponent ?x < int (precision fmt)" by (rule pow2_less_cancel)
  then have k: "?k \<le> 0" using e by simp
  then have u: "pow2 ?k = 1 / 2 ^ nat (- ?k)" by (auto simp: pow2_def)
  have "?x / pow2 ?k = of_int (int n * 2 ^ nat (- ?k))" unfolding u by simp
  then show ?thesis unfolding round_pos_def ulp_def by (simp only: round_half_even_int) (simp add: u)
qed

lemma fl_nat_le:
  assumes x: "0 \<le> x" "x \<le> of_nat n" and n: "n < 2 ^ precision fmt" and e: "min_exp fmt \<le> 0"
    and m: "int (precision fmt) \<le> max_exp fmt"
  shows "\<exists>r. fl fmt x = Fin r \<and> 0 \<le> r \<and> r \<le> of_nat n"
proof (cases "x = 0")
  case True then show ?thesis by (simp add: fl_def)
next
  case False
  with x have xp: "0 < x" by simp
  note f = round_pos_fence [OF xp x(2) n e]
  have "round_pos fmt x \<le> of_nat n" by (rule f(2))
  also have "of_nat n < (of_nat (2 ^ precision fmt) :: rat)" using n by (simp only: of_nat_less_iff)
  also have "\<dots> = pow2 (int (precision fmt))" by simp
  also have "\<dots> \<le> pow2 (max_exp fmt)" using m by (rule pow2_mono)
  finally have "exponent (round_pos fmt x) < max_exp fmt" using f m by (intro exponent_less) auto
  then show ?thesis using xp f by (simp add: fl_def Let_def)
qed

lemma fl_nat:
  assumes n: "n < 2 ^ precision fmt" and e: "min_exp fmt \<le> 0" and m: "int (precision fmt) \<le> max_exp fmt"
  shows "fl fmt (of_nat n) = Fin (of_nat n)"
proof (cases "n = 0")
  case True then show ?thesis by (simp add: fl_def)
next
  case False
  have "of_nat n < (of_nat (2 ^ precision fmt) :: rat)" using n by (simp only: of_nat_less_iff)
  also have "\<dots> = pow2 (int (precision fmt))" by simp
  also have "\<dots> \<le> pow2 (max_exp fmt)" using m by (rule pow2_mono)
  finally have "exponent (of_nat n) < max_exp fmt" using m by (intro exponent_less) auto
  then show ?thesis using False round_pos_nat [OF _ n e] by (simp add: fl_def Let_def)
qed

text \<open>Scaling an exactly represented count by a factor that is not outside the unit interval and
  rounding to an integer gives at most that count.\<close>

lemma f64_of_nat: "n < 2 ^ 53 \<Longrightarrow> f64_of_nat n = Fin (of_nat n)"
  using fl_nat [of n f64_format] by (simp add: float_of_nat_def f64_format_def)

lemma round_half_away_le: "0 \<le> x \<Longrightarrow> x \<le> of_nat n \<Longrightarrow> 0 \<le> round_half_away x \<and> round_half_away x \<le> int n"
proof -
  assume x: "0 \<le> x" "x \<le> of_nat n"
  have "x + 1 / 2 < of_int (int n + 1)" using x by simp
  then have "\<lfloor>x + 1 / 2\<rfloor> < int n + 1" by (simp only: floor_less_iff)
  then show ?thesis using x by (simp add: round_half_away_def)
qed

lemma f64_scaled_count_le:
  assumes p: "\<not> float_less p (Fin 0)" "\<not> float_less (Fin 1) p" and n: "n < 2 ^ 53"
  shows "float_to_u64 (float_round (f64_mul p (f64_of_nat n))) \<le> n"
proof (cases p)
  case (Fin x)
  with p have x: "0 \<le> x" "x \<le> 1" by auto
  then have "0 \<le> x * of_nat n" "x * of_nat n \<le> of_nat n" by (simp_all add: mult_left_le_one_le)
  then obtain r where r: "fl f64_format (x * of_nat n) = Fin r" "0 \<le> r" "r \<le> of_nat n"
    using fl_nat_le [of "x * of_nat n" n f64_format] n by (auto simp: f64_format_def)
  have rr: "0 \<le> round_half_away r" "round_half_away r \<le> int n" using round_half_away_le [OF r(2,3)] by auto
  show ?thesis using Fin n r rr by (auto simp: f64_of_nat nat_le_iff)
qed (use p n in \<open>auto simp: f64_of_nat\<close>)

end
