(* ===== verification/Split.thy ===== *)
theory Split
  imports Floats "HOL-Library.Multiset"
begin

text \<open>
  The assignment of rows to splits (\<^verbatim>\<open>dataloader/permutation/split.rs\<close>): the split sizes and their
  validation, the row counts computed from them, the sequential assignment, which carries its
  position across batches, and the hash assignment. Unsigned 64-bit integers are natural numbers
  with the wrap-around of a release build written out; the loop of \<^verbatim>\<open>to_counts\<close> that takes surplus rows
  away need not end on every input, so it is a partial function.
\<close>

section \<open>Batches\<close>

type_synonym 'r stream = "'r list result list"

text \<open>All rows the successful batches of a stream hold, and \<^verbatim>\<open>try_collect\<close>, which stops at an error.\<close>

definition rows_of :: "'r stream \<Rightarrow> 'r list" where
  "rows_of s = concat (map (\<lambda>b. case b of Inl _ \<Rightarrow> [] | Inr rs \<Rightarrow> rs) s)"

definition try_collect :: "'r stream \<Rightarrow> 'r list list result" where
  "try_collect s = try_map (\<lambda>b. b) s"

lemma rows_of_simps [simp]:
  "rows_of [] = []" "rows_of (Inl e # s) = rows_of s" "rows_of (Inr b # s) = b @ rows_of s"
  by (simp_all add: rows_of_def)

lemma try_collect_rows: "try_collect s = Inr bs \<Longrightarrow> concat bs = rows_of s"
  by (induction s arbitrary: bs) (auto simp: try_collect_def try_bind_Inr_iff)

section \<open>64-bit integers\<close>

definition wrap64 :: "nat \<Rightarrow> nat" where
  "wrap64 n = n mod 2 ^ 64"

definition u64_sum :: "nat list \<Rightarrow> nat" where
  "u64_sum xs = wrap64 (sum_list xs)"

definition as_i64 :: "nat \<Rightarrow> int" where
  "as_i64 n = (if n < 2 ^ 63 then int n else int n - 2 ^ 64)"

definition wrap_i64 :: "int \<Rightarrow> int" where
  "wrap_i64 z = (z + 2 ^ 63) mod 2 ^ 64 - 2 ^ 63"

lemma wrap64_id: "n < 2 ^ 64 \<Longrightarrow> wrap64 n = n"
  by (simp add: wrap64_def)

lemma u64_sum_id: "sum_list xs < 2 ^ 64 \<Longrightarrow> u64_sum xs = sum_list xs"
  by (simp add: u64_sum_def wrap64_id)

lemma wrap_i64_id: "- (2 ^ 63) \<le> z \<Longrightarrow> z < 2 ^ 63 \<Longrightarrow> wrap_i64 z = z"
  by (simp add: wrap_i64_def)

section \<open>Split sizes\<close>

datatype split_sizes = Percentages "float list" | Counts "nat list" | Fixed nat

text \<open>\<open>disp\<close> stands for the decimal rendering of a floating-point number in the message.\<close>

definition validate_percentage :: "(float \<Rightarrow> string) \<Rightarrow> nat \<Rightarrow> float \<Rightarrow> unit result" where
  "validate_percentage disp num_rows p =
     (if float_less p (Fin 0) \<or> float_less (Fin 1) p
      then Inl (InvalidInput ''Split percentages must be between 0.0 and 1.0'')
      else if float_less (f64_mul p (f64_of_nat num_rows)) (Fin 1)
      then Inl (InvalidInput (''One of the splits has '' @ disp (f64_mul p (Fin 100)) @ ''% of ''
                  @ show_nat num_rows @ '' rows which rounds to 0 rows''))
      else Inr ())"

definition fixed_message :: "nat \<Rightarrow> nat \<Rightarrow> string" where
  "fixed_message k num_rows =
     ''Split fixed config specified '' @ show_nat k @ '' splits but only '' @ show_nat num_rows
     @ '' rows are available.  Must have at least 1 row per split.''"

fun validate_sizes :: "(float \<Rightarrow> string) \<Rightarrow> split_sizes \<Rightarrow> nat \<Rightarrow> unit result" where
  "validate_sizes disp (Percentages ps) num_rows =
     try_bind (try_all (validate_percentage disp num_rows) ps) (\<lambda>_.
       if float_less (Fin 1) (f64_sum ps)
       then Inl (InvalidInput ''Split percentages must sum to 1.0 or less'') else Inr ())"
| "validate_sizes disp (Counts cs) num_rows =
     (if num_rows < u64_sum cs
      then Inl (InvalidInput (''Split counts specified '' @ show_nat (u64_sum cs)
                  @ '' rows but only '' @ show_nat num_rows @ '' are available''))
      else if 0 \<in> set cs then Inl (InvalidInput ''Split counts must be greater than 0'')
      else Inr ())"
| "validate_sizes disp (Fixed k) num_rows =
     (if num_rows < k then Inl (InvalidInput (fixed_message k num_rows))
      else if k = 0 then Inl (Panic ''attempt to divide by zero'')
      else if num_rows div k = 0 then Inl (InvalidInput (fixed_message k num_rows))
      else Inr ())"

text \<open>Taking surplus rows away, one per bucket in turn.\<close>

partial_function (option) drop_loop :: "nat list \<Rightarrow> int \<Rightarrow> nat \<Rightarrow> (nat list \<times> int) result option" where
  "drop_loop counts excess drop_idx =
     (if 0 < excess
      then if drop_idx < length counts
           then drop_loop
                  (if 0 < counts ! drop_idx then counts[drop_idx := counts ! drop_idx - 1] else counts)
                  (if 0 < counts ! drop_idx then excess - 1 else excess)
                  (if drop_idx + 1 = length counts then 0 else drop_idx + 1)
           else Some (Inl (Panic ''index out of bounds''))
      else Some (Inr (counts, excess)))"

declare drop_loop.simps [code]

text \<open>Giving missing rows back, one per bucket in turn.\<close>

function add_loop :: "nat list \<Rightarrow> int \<Rightarrow> nat \<Rightarrow> nat list result" where
  "add_loop counts excess add_idx =
     (if excess < 0
      then if add_idx < length counts
           then add_loop (counts[add_idx := counts ! add_idx + 1]) (excess + 1)
                  (if add_idx + 1 = length counts then 0 else add_idx + 1)
           else Inl (Panic ''index out of bounds'')
      else Inr counts)"
  by pat_completeness auto
termination
  by (relation "measure (\<lambda>(counts, excess, i). nat (- excess))") auto

declare add_loop.simps [simp del]

definition is_basically_one :: "float list \<Rightarrow> nat \<Rightarrow> bool" where
  "is_basically_one ps num_rows =
     float_less (float_abs (f64_sub (f64_of_nat num_rows) (f64_mul (f64_sum ps) (f64_of_nat num_rows))))
       (Fin (1 / 2))"

definition percentage_counts :: "float list \<Rightarrow> nat \<Rightarrow> nat list" where
  "percentage_counts ps num_rows =
     map (\<lambda>p. float_to_u64 (float_round (f64_mul p (f64_of_nat num_rows)))) ps"

fun raw_counts :: "split_sizes \<Rightarrow> nat \<Rightarrow> nat list result option" where
  "raw_counts (Percentages ps) num_rows =
     (let counts = percentage_counts ps num_rows;
          excess = wrap_i64 (as_i64 (u64_sum counts) - as_i64 num_rows)
      in case drop_loop counts excess 0 of
           None \<Rightarrow> None
         | Some (Inl e) \<Rightarrow> Some (Inl e)
         | Some (Inr (counts', excess')) \<Rightarrow>
             Some (if is_basically_one ps num_rows then add_loop counts' excess' 0 else Inr counts'))"
| "raw_counts (Counts cs) num_rows = Some (Inr cs)"
| "raw_counts (Fixed k) num_rows =
     Some (if k = 0 then Inl (Panic ''attempt to divide by zero'') else Inr (replicate k (num_rows div k)))"

definition to_counts :: "split_sizes \<Rightarrow> nat \<Rightarrow> nat list result option" where
  "to_counts sizes num_rows =
     (case raw_counts sizes num_rows of
        None \<Rightarrow> None
      | Some r \<Rightarrow> Some (try_bind r (\<lambda>cs. if u64_sum cs \<le> num_rows then Inr cs
                                        else Inl (Panic ''assertion failed''))))"

subsection \<open>The loops of \<open>to_counts\<close>\<close>

text \<open>How many empty buckets the dropping loop visits before one it can take a row from.\<close>

definition empty_run :: "nat list \<Rightarrow> nat \<Rightarrow> nat" where
  "empty_run counts i = length (takeWhile (\<lambda>c. c = 0) (drop i counts @ take i counts))"

definition next_idx :: "nat list \<Rightarrow> nat \<Rightarrow> nat" where
  "next_idx counts i = (if i + 1 = length counts then 0 else i + 1)"

lemma next_idx_less: "i < length counts \<Longrightarrow> next_idx counts i < length counts"
  by (auto simp: next_idx_def)

lemma next_idx_rotation:
  "i < length counts \<Longrightarrow>
     drop (next_idx counts i) counts @ take (next_idx counts i) counts
       = drop (Suc i) counts @ take i counts @ [counts ! i]"
  by (auto simp: next_idx_def take_Suc_conv_app_nth)
    (metis Cons_nth_drop_Suc append_take_drop_id drop_all le_refl lessI)

lemma empty_run_next:
  assumes i: "i < length counts" "counts ! i = 0" and pos: "0 < sum_list counts"
  shows "empty_run counts (next_idx counts i) < empty_run counts i"
proof -
  let ?ys = "drop (Suc i) counts @ take i counts"
  have rot: "drop i counts @ take i counts = 0 # ?ys" using i by (simp add: Cons_nth_drop_Suc [symmetric])
  obtain c where "c \<in> set counts" "c \<noteq> 0" using pos by (metis neq0_conv sum_list_eq_0_iff)
  moreover have "set counts = set (drop i counts @ take i counts)"
    by (metis append_take_drop_id set_append sup_commute)
  ultimately have "c \<in> set ?ys" "c \<noteq> 0" using rot by auto
  then have "takeWhile (\<lambda>c. c = 0) (?ys @ [0]) = takeWhile (\<lambda>c. c = 0) ?ys"
    by (intro takeWhile_append1) auto
  then show ?thesis using i next_idx_rotation [OF i(1)] rot by (simp add: empty_run_def)
qed

lemma sum_list_decr:
  "i < length xs \<Longrightarrow> 0 < xs ! i \<Longrightarrow> sum_list (xs[i := xs ! i - Suc 0]) = sum_list xs - 1"
  by (simp add: sum_list_update)

lemma sum_list_incr:
  "i < length (xs :: nat list) \<Longrightarrow> sum_list (xs[i := Suc (xs ! i)]) = Suc (sum_list xs)"
  using elem_le_sum_list [of i xs] by (simp add: sum_list_update)

text \<open>The dropping loop ends when the buckets hold at least the surplus, and removes exactly it.\<close>

lemma drop_loop_ends:
  assumes "excess \<le> int (sum_list counts)" "0 < excess \<longrightarrow> i < length counts"
  shows "\<exists>counts'. drop_loop counts excess i = Some (Inr (counts', min excess 0))
           \<and> length counts' = length counts
           \<and> int (sum_list counts') = int (sum_list counts) - max excess 0
           \<and> (\<forall>j < length counts. counts' ! j \<le> counts ! j)"
  using assms
proof (induction "(nat excess, empty_run counts i)" arbitrary: counts excess i
    rule: wf_induct_rule [OF wf_lex_prod [OF wf_less_than wf_less_than]])
  case 1
  show ?case
  proof (cases "0 < excess")
    case False
    then show ?thesis by (simp add: drop_loop.simps)
  next
    case True
    then have i: "i < length counts" and pos: "0 < sum_list counts" using 1 by auto
    let ?i = "next_idx counts i"
    show ?thesis
    proof (cases "0 < counts ! i")
      case cpos: True
      let ?c = "counts[i := counts ! i - 1]"
      have s: "int (sum_list ?c) = int (sum_list counts) - 1"
        using sum_list_decr [OF i cpos] pos by simp
      have "\<exists>counts'. drop_loop ?c (excess - 1) ?i = Some (Inr (counts', min (excess - 1) 0))
           \<and> length counts' = length ?c \<and> int (sum_list counts') = int (sum_list ?c) - max (excess - 1) 0
           \<and> (\<forall>j < length ?c. counts' ! j \<le> ?c ! j)"
        using 1(2) True s i next_idx_less [OF i] by (intro 1(1)) auto
      then obtain c' where c': "drop_loop ?c (excess - 1) ?i = Some (Inr (c', 0))"
        "length c' = length counts" "int (sum_list c') = int (sum_list counts) - excess"
        "\<forall>j < length counts. c' ! j \<le> ?c ! j" using True s by (auto simp: max_def)
      have "c' ! j \<le> counts ! j" if "j < length counts" for j
        using c'(4) that i by (cases "j = i") (auto intro: le_trans)
      then show ?thesis using c' True i cpos by (subst drop_loop.simps) (simp add: next_idx_def)
    next
      case False
      then have z: "counts ! i = 0" by simp
      have "\<exists>counts'. drop_loop counts excess ?i = Some (Inr (counts', min excess 0))
           \<and> length counts' = length counts \<and> int (sum_list counts') = int (sum_list counts) - max excess 0
           \<and> (\<forall>j < length counts. counts' ! j \<le> counts ! j)"
        using 1(2) True i z next_idx_less [OF i] empty_run_next [OF i z pos] by (intro 1(1)) auto
      then show ?thesis using True i z by (subst drop_loop.simps) (simp add: next_idx_def)
    qed
  qed
qed

lemma add_loop_ends:
  assumes "excess \<le> 0" "excess < 0 \<longrightarrow> i < length counts"
  shows "\<exists>counts'. add_loop counts excess i = Inr counts' \<and> length counts' = length counts
           \<and> int (sum_list counts') = int (sum_list counts) - excess"
  using assms
proof (induction counts excess i rule: add_loop.induct)
  case (1 counts excess i)
  show ?case
  proof (cases "excess < 0")
    case False
    with 1 show ?thesis by (simp add: add_loop.simps)
  next
    case True
    with 1 have i: "i < length counts" by simp
    have "\<exists>counts'. add_loop (counts[i := counts ! i + 1]) (excess + 1) (next_idx counts i) = Inr counts'
            \<and> length counts' = length (counts[i := counts ! i + 1])
            \<and> int (sum_list counts') = int (sum_list (counts[i := counts ! i + 1])) - (excess + 1)"
      using True i next_idx_less [OF i] unfolding next_idx_def by (intro 1(1)) (auto split: if_splits)
    then show ?thesis using True i
      by (subst add_loop.simps) (auto simp: next_idx_def sum_list_incr)
  qed
qed

subsection \<open>Valid sizes give counts\<close>

lemma sum_list_bound: "(\<And>x. x \<in> set xs \<Longrightarrow> x \<le> (n::nat)) \<Longrightarrow> sum_list xs \<le> length xs * n"
  by (induction xs) (auto simp: add_mono)

lemma validate_percentages_range:
  "validate_sizes disp (Percentages ps) n = Inr () \<Longrightarrow> p \<in> set ps \<Longrightarrow>
     \<not> float_less p (Fin 0) \<and> \<not> float_less (Fin 1) p"
  by (auto simp: try_bind_Inr_iff try_all_Inr_iff validate_percentage_def split: if_splits)

lemma percentage_counts_sum:
  assumes "validate_sizes disp (Percentages ps) n = Inr ()" "n < 2 ^ 53"
  shows "sum_list (percentage_counts ps n) \<le> length ps * n"
proof -
  have "c \<le> n" if "c \<in> set (percentage_counts ps n)" for c
    using that validate_percentages_range [OF assms(1)] f64_scaled_count_le [OF _ _ assms(2)]
    by (auto simp: percentage_counts_def)
  then have "sum_list (percentage_counts ps n) \<le> length (percentage_counts ps n) * n"
    by (rule sum_list_bound)
  then show ?thesis by (simp add: percentage_counts_def)
qed

lemma basically_one_nil: "n < 2 ^ 53 \<Longrightarrow> is_basically_one [] n \<Longrightarrow> n = 0"
proof -
  assume n: "n < 2 ^ 53" and one: "is_basically_one [] n"
  have "fl f64_format (of_nat n) = Fin (of_nat n)" using f64_of_nat [OF n] by (simp add: float_of_nat_def)
  with one n show "n = 0"
    by (simp add: is_basically_one_def float_sum_def f64_of_nat float_sub_def fl_def [of _ 0])
qed

lemma percentages_to_counts:
  assumes v: "validate_sizes disp (Percentages ps) n = Inr ()" and n: "n < 2 ^ 53" and k: "length ps * n < 2 ^ 63"
  shows "\<exists>cs. to_counts (Percentages ps) n = Some (Inr cs) \<and> length cs = length ps \<and> sum_list cs \<le> n
              \<and> (if is_basically_one ps n then sum_list cs = n else list_all2 (\<le>) cs (percentage_counts ps n))"
proof -
  let ?cs = "percentage_counts ps n"
  let ?ex = "int (sum_list ?cs) - int n"
  have s: "sum_list ?cs < 2 ^ 63" using percentage_counts_sum [OF v n] k by simp
  then have "u64_sum ?cs = sum_list ?cs" by (intro u64_sum_id) simp
  then have ex: "wrap_i64 (as_i64 (u64_sum ?cs) - as_i64 n) = ?ex"
    using s n by (simp add: as_i64_def wrap_i64_id)
  have len: "length ?cs = length ps" by (simp add: percentage_counts_def)
  have "0 < ?ex \<longrightarrow> 0 < length ?cs" by (cases ?cs) auto
  then obtain c' where c': "drop_loop ?cs ?ex 0 = Some (Inr (c', min ?ex 0))" "length c' = length ps"
    "int (sum_list c') = int (sum_list ?cs) - max ?ex 0" "\<forall>j < length ?cs. c' ! j \<le> ?cs ! j"
    using drop_loop_ends [of ?ex ?cs 0] len by auto
  have le: "sum_list c' \<le> n" using c'(3) by linarith
  have u: "sum_list cs \<le> n \<Longrightarrow> u64_sum cs = sum_list cs" for cs using n by (intro u64_sum_id) simp
  show ?thesis
  proof (cases "is_basically_one ps n")
    case False
    then show ?thesis using c' le len u [OF le] ex by (simp add: to_counts_def list_all2_conv_all_nth)
  next
    case True
    have "min ?ex 0 < 0 \<longrightarrow> 0 < length c'"
      using True basically_one_nil [OF n] c'(2) by (cases "ps = []") auto
    then obtain c'' where c'': "add_loop c' (min ?ex 0) 0 = Inr c''" "length c'' = length ps"
      "int (sum_list c'') = int (sum_list c') - min ?ex 0"
      using add_loop_ends [of "min ?ex 0" 0 c'] c'(2) by auto
    have "sum_list c'' = n" using c''(3) c'(3) by linarith
    then show ?thesis using True c' c'' u [of c''] ex by (simp add: to_counts_def)
  qed
qed

lemma fixed_to_counts:
  assumes "validate_sizes disp (Fixed k) n = Inr ()" "n < 2 ^ 64"
  shows "to_counts (Fixed k) n = Some (Inr (replicate k (n div k)))"
proof -
  have le: "k * (n div k) \<le> n" by (simp add: times_div_less_eq_dividend)
  then have "k * (n div k) < 2 ^ 64" using assms(2) by (rule le_less_trans)
  then have "u64_sum (replicate k (n div k)) = k * (n div k)"
    by (simp add: u64_sum_def sum_list_replicate wrap64_id del: power_numeral_reduce)
  with le show ?thesis using assms(1) by (auto simp: to_counts_def split: if_splits)
qed

section \<open>The sequential assignment\<close>

record seq_state =
  split_index :: nat
  counter_in_split :: nat
  exhausted :: bool

definition seq_start :: seq_state where
  "seq_start = \<lparr>split_index = 0, counter_in_split = 0, exhausted = False\<rparr>"

text \<open>The split ids of one batch of \<open>num_rows\<close> rows; \<open>split_ids\<close> are the ones pushed so far.\<close>

function seq_loop :: "nat \<Rightarrow> nat list \<Rightarrow> seq_state \<Rightarrow> nat list \<Rightarrow> (nat list \<times> seq_state) result" where
  "seq_loop num_rows split_sizes st split_ids =
     (if length split_ids < num_rows
      then if split_index st < length split_sizes
           then let split_id = split_index st;
                    split_size = split_sizes ! split_id;
                    remaining_in_split = split_size - counter_in_split st;
                    remaining_in_batch = num_rows - length split_ids
                in if split_size < counter_in_split st
                   then Inl (Panic ''attempt to subtract with overflow'')
                   else if remaining_in_batch < remaining_in_split
                   then seq_loop num_rows split_sizes
                          (st\<lparr>counter_in_split := counter_in_split st + remaining_in_batch\<rparr>)
                          (split_ids @ replicate remaining_in_batch split_id)
                   else if split_id = length split_sizes - 1
                   then Inr (split_ids @ replicate remaining_in_split split_id,
                             st\<lparr>split_index := split_id + 1, counter_in_split := 0, exhausted := True\<rparr>)
                   else seq_loop num_rows split_sizes
                          (st\<lparr>split_index := split_id + 1, counter_in_split := 0\<rparr>)
                          (split_ids @ replicate remaining_in_split split_id)
           else Inl (Panic ''index out of bounds'')
      else Inr (split_ids, st))"
  by pat_completeness auto
termination
  by (relation "measure (\<lambda>(n, sizes, st, ids). (n - length ids) + (length sizes - split_index st))") auto

declare seq_loop.simps [simp del]

definition sequential_split_id :: "nat \<Rightarrow> nat list \<Rightarrow> seq_state \<Rightarrow> (nat list \<times> seq_state) result" where
  "sequential_split_id num_rows split_sizes st = seq_loop num_rows split_sizes st []"

text \<open>The closure of \<^verbatim>\<open>apply_sequential\<close> over the batches of a stream. A panic ends the stream.\<close>

fun seq_stream :: "nat list \<Rightarrow> seq_state \<Rightarrow> 'r stream \<Rightarrow> ('r \<times> nat) stream" where
  "seq_stream split_sizes st [] = []"
| "seq_stream split_sizes st (Inl e # bs) = Inl e # seq_stream split_sizes st bs"
| "seq_stream split_sizes st (Inr b # bs) =
     (if exhausted st then seq_stream split_sizes st bs
      else case sequential_split_id (length b) split_sizes st of
             Inl e \<Rightarrow> [Inl e]
           | Inr (ids, st') \<Rightarrow> Inr (zip (take (length ids) b) ids) # seq_stream split_sizes st' bs)"

text \<open>Reference: the ids of all splits laid out one after the other, and what is left of them in a
  state.\<close>

definition ids_from :: "nat list \<Rightarrow> nat \<Rightarrow> nat list" where
  "ids_from sizes k = concat (map (\<lambda>i. replicate (sizes ! i) i) [k..<length sizes])"

definition ids_left :: "nat list \<Rightarrow> seq_state \<Rightarrow> nat list" where
  "ids_left sizes st =
     (if exhausted st then []
      else replicate (sizes ! split_index st - counter_in_split st) (split_index st)
           @ ids_from sizes (Suc (split_index st)))"

definition seq_inv :: "nat list \<Rightarrow> seq_state \<Rightarrow> bool" where
  "seq_inv sizes st =
     (exhausted st \<or> split_index st < length sizes \<and> counter_in_split st \<le> sizes ! split_index st)"

lemma ids_from_step: "k < length sizes \<Longrightarrow> ids_from sizes k = replicate (sizes ! k) k @ ids_from sizes (Suc k)"
  by (simp add: ids_from_def upt_conv_Cons)

lemma ids_from_end: "length sizes \<le> k \<Longrightarrow> ids_from sizes k = []"
  by (simp add: ids_from_def)

lemma seq_start_left: "sizes \<noteq> [] \<Longrightarrow> seq_inv sizes seq_start \<and> ids_left sizes seq_start = ids_from sizes 0"
  by (simp add: seq_inv_def seq_start_def ids_left_def ids_from_step [of 0])

lemma seq_loop_spec:
  assumes "seq_inv sizes st" "\<not> exhausted st" "length acc \<le> n"
  shows "\<exists>st'. seq_loop n sizes st acc = Inr (acc @ take (n - length acc) (ids_left sizes st), st')
              \<and> seq_inv sizes st' \<and> ids_left sizes st' = drop (n - length acc) (ids_left sizes st)"
  using assms
proof (induction n sizes st acc rule: seq_loop.induct)
  case (1 n sizes st acc)
  let ?i = "split_index st"
  let ?rs = "sizes ! ?i - counter_in_split st" and ?rb = "n - length acc"
  have i: "?i < length sizes" "counter_in_split st \<le> sizes ! ?i" using 1(3,4) by (auto simp: seq_inv_def)
  consider (full) "length acc = n" | (inside) "length acc < n" "?rb < ?rs"
    | (last) "length acc < n" "\<not> ?rb < ?rs" "?i = length sizes - 1"
    | (more) "length acc < n" "\<not> ?rb < ?rs" "?i \<noteq> length sizes - 1" using 1(5) by linarith
  then show ?case
  proof cases
    case full
    then show ?thesis using 1 by (simp add: seq_loop.simps)
  next
    case inside
    then show ?thesis using 1(4) i
      by (subst seq_loop.simps, subst seq_loop.simps)
        (auto simp: Let_def seq_inv_def ids_left_def)
  next
    case last
    then show ?thesis using 1(4) i
      by (subst seq_loop.simps) (auto simp: Let_def seq_inv_def ids_left_def ids_from_end)
  next
    case more
    let ?st = "st\<lparr>split_index := ?i + 1, counter_in_split := 0\<rparr>" and ?acc = "acc @ replicate ?rs ?i"
    have inv: "seq_inv sizes ?st" using more i by (auto simp: seq_inv_def)
    have left: "ids_left sizes st = replicate ?rs ?i @ ids_left sizes ?st"
      using more i 1(4) by (auto simp: ids_left_def ids_from_step)
    have "\<exists>st'. seq_loop n sizes ?st ?acc = Inr (?acc @ take (n - length ?acc) (ids_left sizes ?st), st')
              \<and> seq_inv sizes st' \<and> ids_left sizes st' = drop (n - length ?acc) (ids_left sizes ?st)"
      using more i 1(4) inv by (intro 1(2)) auto
    then show ?thesis using more i left by (subst seq_loop.simps) (auto simp: Let_def)
  qed
qed

lemma zip_take_length: "zip (take (length ys) xs) ys = zip xs ys"
  by (induction xs ys rule: list_induct2') auto

text \<open>However the rows are batched, they are paired with the reference ids in order.\<close>

lemma seq_stream_rows:
  "seq_inv sizes st \<Longrightarrow> rows_of (seq_stream sizes st s) = zip (rows_of s) (ids_left sizes st)"
proof (induction sizes st s rule: seq_stream.induct)
  case (3 sizes st b bs)
  show ?case
  proof (cases "exhausted st")
    case True
    with 3 show ?thesis by (simp add: ids_left_def)
  next
    case False
    from seq_loop_spec [OF 3(3) False, of "[]" "length b"] obtain st' where
      st': "sequential_split_id (length b) sizes st = Inr (take (length b) (ids_left sizes st), st')"
        "seq_inv sizes st'" "ids_left sizes st' = drop (length b) (ids_left sizes st)"
      by (auto simp: sequential_split_id_def)
    have "zip (b @ rows_of bs) (ids_left sizes st)
          = zip b (take (length b) (ids_left sizes st)) @ zip (rows_of bs) (drop (length b) (ids_left sizes st))"
      by (simp add: zip_append1)
    then show ?thesis using False 3(2) [OF False st'(1)] st' by (simp add: zip_take_length)
  qed
qed simp_all

lemma ids_from_length: "length (ids_from sizes 0) = sum_list sizes"
proof -
  have "length (ids_from sizes 0) = sum_list (map (\<lambda>i. sizes ! i) [0..<length sizes])"
    by (simp add: ids_from_def length_concat comp_def)
  then show ?thesis by (simp add: map_nth)
qed

lemma ids_from_count:
  "j \<le> length sizes \<Longrightarrow> count_list (ids_from sizes j) k = (if j \<le> k \<and> k < length sizes then sizes ! k else 0)"
proof (induction "length sizes - j" arbitrary: j)
  case 0
  then show ?case by (simp add: ids_from_end)
next
  case (Suc d)
  then have "count_list (ids_from sizes (Suc j)) k = (if Suc j \<le> k \<and> k < length sizes then sizes ! k else 0)"
    by (intro Suc(1)) auto
  moreover have "count_list (replicate m x) k = (if x = k then m else 0)" for m and x :: nat
    by (induction m) auto
  moreover have "j < length sizes" using Suc(2) by simp
  ultimately show ?case by (auto simp: ids_from_step [of j] le_less_Suc_eq not_less_eq_eq)
qed

lemma ids_from_sorted: "sorted (ids_from sizes j)"
proof (induction "length sizes - j" arbitrary: j)
  case 0
  then show ?case by (simp add: ids_from_end)
next
  case (Suc d)
  then have "sorted (ids_from sizes (Suc j))" by (intro Suc(1)) auto
  moreover have "\<forall>x \<in> set (ids_from sizes (Suc j)). j \<le> x" by (auto simp: ids_from_def)
  moreover have "j < length sizes" using Suc(2) by simp
  ultimately show ?case by (simp add: ids_from_step [of j] sorted_append)
qed

section \<open>The hash assignment\<close>

text \<open>The cumulative sums of the weights, and their sum with the weight of discarded rows.\<close>

fun thresholds :: "nat \<Rightarrow> nat list \<Rightarrow> nat list" where
  "thresholds offset [] = []"
| "thresholds offset (w # ws) = wrap64 (offset + w) # thresholds (wrap64 (offset + w)) ws"

definition total_weight :: "nat list \<Rightarrow> nat \<Rightarrow> nat" where
  "total_weight weights discard_weight = wrap64 (u64_sum weights + discard_weight)"

text \<open>\<^verbatim>\<open>slice::binary_search\<close> on an ascending slice without repetitions: \<^term>\<open>Inr\<close> the index of the element,
  or \<^term>\<open>Inl\<close> the index it would be inserted at.\<close>

definition binary_search :: "nat list \<Rightarrow> nat \<Rightarrow> nat + nat" where
  "binary_search xs x =
     (let i = length (takeWhile (\<lambda>y. y < x) xs) in if i < length xs \<and> xs ! i = x then Inr i else Inl i)"

definition hash_split :: "nat list \<Rightarrow> nat \<Rightarrow> nat \<Rightarrow> nat option" where
  "hash_split ts tw h =
     (let split_id = (case binary_search ts (h mod tw) of Inr i \<Rightarrow> i + 1 | Inl i \<Rightarrow> i)
      in if split_id = length ts then None else Some split_id)"

text \<open>The split ids of a batch; \<open>hash\<close> is the row hash of the columns before the row id.\<close>

definition hash_split_id :: "('v list \<Rightarrow> nat) \<Rightarrow> nat list \<Rightarrow> nat \<Rightarrow> 'v list list \<Rightarrow> nat option list result" where
  "hash_split_id hash ts tw b =
     (if b \<noteq> [] \<and> tw = 0 then Inl (Panic ''attempt to calculate the remainder with a divisor of zero'')
      else Inr (map (\<lambda>row. hash_split ts tw (hash (butlast row))) b))"

text \<open>The closure of \<^verbatim>\<open>apply_hash\<close>: the row id of every row that has a split, with the split.\<close>

fun hash_stream :: "('v list \<Rightarrow> nat) \<Rightarrow> nat list \<Rightarrow> nat \<Rightarrow> 'v list stream \<Rightarrow> ('v \<times> nat) stream" where
  "hash_stream hash ts tw [] = []"
| "hash_stream hash ts tw (Inl e # bs) = Inl e # hash_stream hash ts tw bs"
| "hash_stream hash ts tw (Inr b # bs) =
     (case hash_split_id hash ts tw b of
        Inl e \<Rightarrow> [Inl e]
      | Inr ids \<Rightarrow>
          Inr (List.map_filter (\<lambda>(row, i). map_option (\<lambda>k. (last row, k)) i) (zip b ids))
          # hash_stream hash ts tw bs)"

lemma thresholds_sums:
  "off + sum_list ws < 2 ^ 64 \<Longrightarrow>
     thresholds off ws = map (\<lambda>i. off + sum_list (take (Suc i) ws)) [0..<length ws]"
proof (induction ws arbitrary: off)
  case (Cons w ws)
  then have "thresholds (off + w) ws = map (\<lambda>i. off + w + sum_list (take (Suc i) ws)) [0..<length ws]"
    by (intro Cons.IH) simp
  with Cons.prems show ?case
    by (simp add: wrap64_id upt_rec [of 0] map_Suc_upt [symmetric] add.assoc del: upt_Suc)
qed simp

lemma below_count:
  assumes "sorted_wrt (<) (ts :: nat list)"
  shows "(case binary_search ts x of Inr i \<Rightarrow> i + 1 | Inl i \<Rightarrow> i) = length (filter (\<lambda>t. t \<le> x) ts)"
  using assms
proof (induction ts)
  case (Cons t ts)
  show ?case
  proof (cases "t < x")
    case True
    with Cons show ?thesis by (auto simp: binary_search_def Let_def split: if_splits)
  next
    case False
    with Cons.prems have "filter (\<lambda>t. t \<le> x) ts = []" by (auto simp: filter_empty_conv)
    with False show ?thesis by (auto simp: binary_search_def)
  qed
qed (simp add: binary_search_def)

lemma thresholds_ge: "off + sum_list ws < 2 ^ 64 \<Longrightarrow> t \<in> set (thresholds off ws) \<Longrightarrow> off \<le> t"
  by (auto simp: thresholds_sums)

lemma thresholds_increasing:
  "off + sum_list ws < 2 ^ 64 \<Longrightarrow> 0 \<notin> set ws \<Longrightarrow> sorted_wrt (<) (thresholds off ws)"
proof (induction ws arbitrary: off)
  case (Cons w ws)
  have lt: "off + w + sum_list ws < 2 ^ 64" using Cons.prems by simp
  then have w: "wrap64 (off + w) = off + w" by (intro wrap64_id) simp
  have "off + w < t" if "t \<in> set (thresholds (off + w) ws)" for t
  proof (cases ws)
    case (Cons v vs)
    with that lt Cons.prems show ?thesis
      using thresholds_ge [of "off + w + v" vs t] by (auto simp: wrap64_id)
  qed (use that in simp)
  then show ?case using Cons.IH [OF lt] Cons.prems by (auto simp: w)
qed simp

lemma below_interval:
  assumes "off \<le> r" "off + sum_list ws < 2 ^ 64"
  shows "length (filter (\<lambda>t. t \<le> r) (thresholds off ws)) = i \<longleftrightarrow>
           (if i < length ws then off + sum_list (take i ws) \<le> r \<and> r < off + sum_list (take (Suc i) ws)
            else i = length ws \<and> off + sum_list ws \<le> r)"
  using assms
proof (induction ws arbitrary: off i)
  case (Cons w ws)
  have lt: "off + w + sum_list ws < 2 ^ 64" using Cons.prems by simp
  then have w: "wrap64 (off + w) = off + w" by (intro wrap64_id) simp
  show ?case
  proof (cases "off + w \<le> r")
    case True
    from Cons.IH [OF True lt] True show ?thesis by (cases i) (auto simp: w add.assoc)
  next
    case False
    then have "filter (\<lambda>t. t \<le> r) (thresholds (off + w) ws) = []"
      using thresholds_ge [OF lt] by (force simp: filter_empty_conv)
    with False Cons.prems show ?thesis by (cases i) (auto simp: w)
  qed
qed auto

lemma hash_split_interval:
  assumes ws: "0 \<notin> set ws" and fit: "sum_list ws + d < 2 ^ 64" and tw: "tw = sum_list ws + d" "0 < tw"
  shows "hash_split (thresholds 0 ws) tw h = Some i \<longleftrightarrow>
           i < length ws \<and> sum_list (take i ws) \<le> h mod tw \<and> h mod tw < sum_list (take (Suc i) ws)"
    and "hash_split (thresholds 0 ws) tw h = None \<longleftrightarrow> sum_list ws \<le> h mod tw"
proof -
  have fit': "0 + sum_list ws < 2 ^ 64" using fit by simp
  have len: "length (thresholds 0 ws) = length ws" using thresholds_sums [OF fit'] by simp
  note inc = thresholds_increasing [OF fit' ws]
  note iv = below_interval [OF le0 fit', where r = "h mod tw"]
  show "hash_split (thresholds 0 ws) tw h = Some i \<longleftrightarrow>
           i < length ws \<and> sum_list (take i ws) \<le> h mod tw \<and> h mod tw < sum_list (take (Suc i) ws)"
    using iv [where i = i] by (auto simp: hash_split_def below_count [OF inc] len Let_def split: if_splits)
  show "hash_split (thresholds 0 ws) tw h = None \<longleftrightarrow> sum_list ws \<le> h mod tw"
    using iv [where i = "length ws"] by (auto simp: hash_split_def below_count [OF inc] len Let_def)
qed

lemma sum_take_le: "sum_list (take i ws) \<le> sum_list (ws :: nat list)"
  by (metis append_take_drop_id le_add1 sum_list.append)

lemma hash_split_class_size:
  assumes ws: "0 \<notin> set ws" and fit: "sum_list ws + d < 2 ^ 64" and pos: "0 < sum_list ws + d" and i: "i < length ws"
  shows "card {r. r < sum_list ws + d \<and> hash_split (thresholds 0 ws) (sum_list ws + d) r = Some i} = ws ! i"
proof -
  let ?tw = "sum_list ws + d"
  have "{r. r < ?tw \<and> hash_split (thresholds 0 ws) ?tw r = Some i}
        = {sum_list (take i ws)..<sum_list (take (Suc i) ws)}"
    using hash_split_interval(1) [OF ws fit refl pos] i sum_take_le [of "Suc i" ws] by auto
  then show ?thesis using i by (simp add: take_Suc_conv_app_nth)
qed

lemma hash_split_discard_size:
  assumes ws: "0 \<notin> set ws" and fit: "sum_list ws + d < 2 ^ 64" and pos: "0 < sum_list ws + d"
  shows "card {r. r < sum_list ws + d \<and> hash_split (thresholds 0 ws) (sum_list ws + d) r = None} = d"
proof -
  let ?tw = "sum_list ws + d"
  have "{r. r < ?tw \<and> hash_split (thresholds 0 ws) ?tw r = None} = {sum_list ws..<?tw}"
    by (rule set_eqI) (simp add: hash_split_interval(2) [OF ws fit refl pos] conj_commute cong: conj_cong)
  then show ?thesis by simp
qed

section \<open>Properties\<close>

text \<open>
  C12 (row counts). For sizes that pass validation, computing the counts of an \<open>n\<close>-row table ends without a panic. A fixed number of
  splits divides the rows evenly and leaves fewer rows over than there are splits. Given counts are taken as
  they are, and are no more than the rows unless their sum overflows 64 bits, which validation does not
  notice. Percentages of fewer than \<open>2 ^ 53\<close> rows, with \<open>n\<close> times their number below \<open>2 ^ 63\<close>, give one count each
  and together no more than the rows: all of them when the percentages add up to the whole, otherwise each
  at most its rounded share.
\<close>
theorem split_counts:
  assumes "validate_sizes disp sizes n = Inr ()" and "n < 2 ^ 64"
  shows "case sizes of
           Fixed k \<Rightarrow> to_counts sizes n = Some (Inr (replicate k (n div k))) \<and> k * (n div k) \<le> n \<and> n - k * (n div k) < k
         | Counts c \<Rightarrow> to_counts sizes n = Some (Inr c) \<and> (sum_list c < 2 ^ 64 \<longrightarrow> sum_list c \<le> n)
         | Percentages ps \<Rightarrow> n < 2 ^ 53 \<and> length ps * n < 2 ^ 63 \<longrightarrow>
             (\<exists>cs. to_counts sizes n = Some (Inr cs) \<and> length cs = length ps \<and> sum_list cs \<le> n
                \<and> (if is_basically_one ps n then sum_list cs = n else list_all2 (\<le>) cs (percentage_counts ps n)))"
proof (cases sizes)
  case (Percentages ps)
  with assms(1) percentages_to_counts [of disp ps n] show ?thesis by simp
next
  case (Counts c)
  with assms(1) show ?thesis by (auto simp: to_counts_def u64_sum_id split: if_splits)
next
  case (Fixed k)
  with assms(1) have "0 < k" by (auto split: if_splits)
  then have "n - k * (n div k) < k" by (simp add: minus_mult_div_eq_mod)
  with Fixed fixed_to_counts [OF assms(1) [unfolded Fixed] assms(2)] show ?thesis
    by (simp add: times_div_less_eq_dividend)
qed

theorem split_counts_witness:
  "validate_sizes (\<lambda>_. ''%'') (Percentages [Fin (1 / 2), Fin (1 / 2)]) 5 = Inr ()
   \<and> to_counts (Percentages [Fin (1 / 2), Fin (1 / 2)]) 5 = Some (Inr [2, 3])
   \<and> (\<exists>cs. to_counts (Percentages [Fin (1 / 2), Fin (1 / 2)]) 5 = Some (Inr cs) \<and> sum_list cs = 5)"
proof -
  have v: "validate_sizes (\<lambda>_. ''%'') (Percentages [Fin (1 / 2), Fin (1 / 2)]) 5 = Inr ()" by code_simp
  have c: "to_counts (Percentages [Fin (1 / 2), Fin (1 / 2)]) 5 = Some (Inr [2, 3])" by code_simp
  have o: "is_basically_one [Fin (1 / 2), Fin (1 / 2)] 5" by code_simp
  from split_counts [OF v] o v c show ?thesis by auto
qed

text \<open>
  C21 (sequential assignment). However the source is batched, and whatever errors are interleaved, the rows of the
  assigned stream are the first rows of the source in order, as many as the sizes ask for, with
  ascending split ids, and split \<open>k\<close> gets exactly its size.
\<close>
theorem sequential_assignment:
  assumes "sizes \<noteq> []" and "sum_list sizes \<le> length (rows_of s)"
  shows "map fst (rows_of (seq_stream sizes seq_start s)) = take (sum_list sizes) (rows_of s)
       \<and> sorted (map snd (rows_of (seq_stream sizes seq_start s)))
       \<and> (\<forall>k. count_list (map snd (rows_of (seq_stream sizes seq_start s))) k
              = (if k < length sizes then sizes ! k else 0))"
proof -
  have z: "rows_of (seq_stream sizes seq_start s) = zip (rows_of s) (ids_from sizes 0)"
    using seq_stream_rows [of sizes seq_start s] seq_start_left [OF assms(1)] by simp
  have "map snd (zip (rows_of s) (ids_from sizes 0)) = ids_from sizes 0"
    using assms(2) by (simp add: map_snd_zip_take ids_from_length)
  then show ?thesis
    by (simp add: z map_fst_zip_take ids_from_length ids_from_sorted ids_from_count assms(2) min_absorb2)
qed

theorem sequential_assignment_witness:
  "[2, 1] \<noteq> ([] :: nat list) \<and> sum_list [2, 1] \<le> length (rows_of [Inr ''a'', Inl (Runtime ''x''), Inr ''bcd''])
   \<and> seq_stream [2, 1] seq_start [Inr ''a'', Inl (Runtime ''x''), Inr ''bcd'']
     = [Inr [(CHR ''a'', 0)], Inl (Runtime ''x''), Inr [(CHR ''b'', 0), (CHR ''c'', 1)]]
   \<and> sorted (map snd (rows_of (seq_stream [2, 1] seq_start [Inr ''a'', Inl (Runtime ''x''), Inr ''bcd''])))"
proof -
  have l: "sum_list [2, 1] \<le> length (rows_of [Inr ''a'', Inl (Runtime ''x''), Inr ''bcd''])" by code_simp
  have e: "seq_stream [2, 1] seq_start [Inr ''a'', Inl (Runtime ''x''), Inr ''bcd'']
     = [Inr [(CHR ''a'', 0)], Inl (Runtime ''x''), Inr [(CHR ''b'', 0), (CHR ''c'', 1)]]" by code_simp
  from sequential_assignment [OF _ l] l e show ?thesis by blast
qed

text \<open>
  C22 (hash assignment). A row's split depends on its hash modulo the total weight only, and of the residues exactly
  as many go to split \<open>i\<close> as it has weight, and as many are discarded as the discard weight says.
\<close>
theorem hash_assignment:
  assumes "0 \<notin> set ws" and "ws \<noteq> []" and "sum_list ws + d < 2 ^ 64"
  shows "(\<forall>h. hash_split (thresholds 0 ws) (total_weight ws d) h
              = hash_split (thresholds 0 ws) (total_weight ws d) (h mod total_weight ws d))
       \<and> (\<forall>i < length ws. card {r. r < total_weight ws d \<and> hash_split (thresholds 0 ws) (total_weight ws d) r = Some i} = ws ! i)
       \<and> card {r. r < total_weight ws d \<and> hash_split (thresholds 0 ws) (total_weight ws d) r = None} = d"
proof -
  have tw: "total_weight ws d = sum_list ws + d"
    using assms(3) by (simp add: total_weight_def u64_sum_id wrap64_id)
  obtain w ws' where "ws = w # ws'" using assms(2) by (cases ws) auto
  with assms(1) have pos: "0 < sum_list ws + d" by simp
  show ?thesis unfolding tw
    using hash_split_class_size [OF assms(1,3) pos] hash_split_discard_size [OF assms(1,3) pos]
    by (simp add: hash_split_def)
qed

theorem hash_assignment_witness:
  "(0::nat) \<notin> set [1, 2] \<and> [1, 2] \<noteq> ([] :: nat list) \<and> sum_list [1, 2] + 1 < (2::nat) ^ 64
   \<and> map (hash_split (thresholds 0 [1, 2]) (total_weight [1, 2] 1)) [0, 1, 2, 3, 7] = [Some 0, Some 1, Some 1, None, None]
   \<and> card {r. r < total_weight [1, 2] 1 \<and> hash_split (thresholds 0 [1, 2]) (total_weight [1, 2] 1) r = None} = 1"
proof -
  have f: "sum_list [1, 2] + 1 < (2::nat) ^ 64" by code_simp
  have m: "map (hash_split (thresholds 0 [1, 2]) (total_weight [1, 2] 1)) [0, 1, 2, 3, 7]
           = [Some 0, Some 1, Some 1, None, None]" by code_simp
  have z: "(0::nat) \<notin> set [1, 2]" and n: "[1, 2] \<noteq> ([] :: nat list)" by simp_all
  from hash_assignment [OF z n f] f m z n show ?thesis by blast
qed

text \<open>An empty list of counts passes validation, and the first row then panics.\<close>

lemma empty_counts_panic:
  "validate_sizes disp (Counts []) n = Inr ()
   \<and> to_counts (Counts []) n = Some (Inr [])
   \<and> seq_stream [] seq_start (Inr (r # rs) # s) = [Inl (Panic ''index out of bounds'')]"
  by (simp add: u64_sum_def wrap64_def to_counts_def seq_start_def sequential_split_id_def seq_loop.simps)

text \<open>Counts whose sum wraps around pass validation, however few rows there are; and a NaN passes as a
  percentage, for which no row is kept.\<close>

lemma wrapped_counts_pass: "validate_sizes disp (Counts [2 ^ 63, 2 ^ 63]) n = Inr ()"
  by (simp add: u64_sum_def wrap64_def)

lemma nan_percentage_passes:
  "validate_sizes disp (Percentages [NaN]) n = Inr () \<and> percentage_counts [NaN] n = [0]"
  by (simp add: validate_percentage_def percentage_counts_def float_sum_def)

end
