(* ===== verification/Shuffle.thy ===== *)
theory Shuffle
  imports Split
begin

text \<open>
  The shuffler of \<^verbatim>\<open>dataloader/permutation/shuffle.rs\<close> with the helpers of \<^verbatim>\<open>util.rs\<close>. Random numbers, temporary
  files and the file format come from other crates and are a record of functions; \<open>shuffle_laws\<close>
  states what the code relies on: shuffling a vector permutes it, a random index is in range, and a file
  gives back the rows written to it. The result is that a shuffle, in memory or through files,
  permutes whole clumps of consecutive rows and neither loses nor repeats any.
\<close>

section \<open>Libraries\<close>

record ('r, 'g) shuffle_lib =
  seed_rng :: "nat option \<Rightarrow> 'g"
  shuffle_vec :: "nat list \<Rightarrow> 'g \<Rightarrow> nat list \<times> 'g"
  random_below :: "nat \<Rightarrow> 'g \<Rightarrow> nat \<times> 'g"
  make_temp_dir :: "string option \<Rightarrow> bool"
  create_writer :: "nat \<Rightarrow> unit result"
  write_batch :: "nat \<Rightarrow> 'r list \<Rightarrow> unit result"
  finish_writer :: "nat \<Rightarrow> unit result"
  read_file :: "nat \<Rightarrow> 'r list list \<Rightarrow> 'r list list result"

definition shuffle_laws :: "('r, 'g) shuffle_lib \<Rightarrow> bool" where
  "shuffle_laws lib =
     ((\<forall>xs g. mset (fst (shuffle_vec lib xs g)) = mset xs)
      \<and> (\<forall>n g. 0 < n \<longrightarrow> fst (random_below lib n g) < n)
      \<and> (\<forall>i written got. read_file lib i written = Inr got \<longrightarrow> concat got = concat written))"

text \<open>\<^verbatim>\<open>TemporaryDirectory\<close>.\<close>

datatype temporary_directory = OsDefault | Specific string | NoTempDir

fun create_temp_dir :: "('r, 'g) shuffle_lib \<Rightarrow> temporary_directory \<Rightarrow> unit result" where
  "create_temp_dir lib OsDefault =
     (if make_temp_dir lib None then Inr () else Inl (Other ''Failed to create temporary directory''))"
| "create_temp_dir lib (Specific path) =
     (if make_temp_dir lib (Some path) then Inr () else Inl (Other ''Failed to create temporary directory''))"
| "create_temp_dir lib NoTempDir =
     Inl (Runtime ''No temporary directory was supplied and this operation requires spilling to disk'')"

record shuffler_config =
  seed :: "nat option"
  max_rows_per_file :: nat
  temp_dir :: temporary_directory
  clump_size :: "nat option"

definition default_shuffler_config :: shuffler_config where
  "default_shuffler_config =
     \<lparr>seed = None, max_rows_per_file = 1024 * 1024, temp_dir = OsDefault, clump_size = None\<rparr>"

section \<open>One batch\<close>

text \<open>The row indices of a clump, the last one possibly shorter.\<close>

definition clump_range :: "nat \<Rightarrow> nat \<Rightarrow> nat \<Rightarrow> nat list" where
  "clump_range num_rows cs i =
     (if i = div_ceil num_rows cs - 1 then [i * cs..<num_rows] else [i * cs..<(i + 1) * cs])"

definition shuffle_batch :: "('r, 'g) shuffle_lib \<Rightarrow> 'r list \<Rightarrow> 'g \<Rightarrow> nat \<Rightarrow> ('r list \<times> 'g) result" where
  "shuffle_batch lib batch rng cs =
     (if cs = 0 then Inl (Panic ''attempt to divide by zero'')
      else let num_clumps = div_ceil (length batch) cs;
               (indices, rng') = shuffle_vec lib [0..<num_clumps] rng;
               indices' = (if cs = 1 then indices else concat (map (clump_range (length batch) cs) indices))
           in Inr (map (\<lambda>i. batch ! i) indices', rng'))"

definition in_memory_shuffle ::
  "('r, 'g) shuffle_lib \<Rightarrow> shuffler_config \<Rightarrow> 'r stream \<Rightarrow> 'g \<Rightarrow> 'r stream result" where
  "in_memory_shuffle lib cfg data rng =
     try_bind (try_collect data) (\<lambda>batches.
     try_bind (shuffle_batch lib (concat batches) rng (case clump_size cfg of None \<Rightarrow> 1 | Some c \<Rightarrow> c)) (\<lambda>(shuffled, _).
     Inr [Inr shuffled]))"

section \<open>Through files\<close>

text \<open>Every clump of a batch goes to a random file: the offsets of the batch's rows per file.\<close>

fun scatter :: "('r, 'g) shuffle_lib \<Rightarrow> nat \<Rightarrow> nat \<Rightarrow> nat \<Rightarrow> nat list \<Rightarrow> nat list list \<Rightarrow> 'g
    \<Rightarrow> (nat list list \<times> 'g) result" where
  "scatter lib num_files cs num_rows [] offsets rng = Inr (offsets, rng)"
| "scatter lib num_files cs num_rows (clump_offset # rest) offsets rng =
     (let clump_start = clump_offset * cs;
          clump_end = clump_start + min cs (num_rows - clump_start);
          (file_index, rng') = random_below lib num_files rng
      in if file_index < length offsets
         then scatter lib num_files cs num_rows rest
                (offsets[file_index := offsets ! file_index @ [clump_start..<clump_end]]) rng'
         else Inl (Panic ''index out of bounds''))"

text \<open>The parts of a batch are appended to their files; \<open>files\<close> holds what each file was written.\<close>

fun write_parts :: "('r, 'g) shuffle_lib \<Rightarrow> 'r list \<Rightarrow> (nat \<times> nat list) list \<Rightarrow> 'r list list list
    \<Rightarrow> 'r list list list result" where
  "write_parts lib batch [] files = Inr files"
| "write_parts lib batch ((file_index, offsets) # rest) files =
     (if offsets = [] then write_parts lib batch rest files
      else let part = map (\<lambda>i. batch ! i) offsets
           in try_bind (write_batch lib file_index part) (\<lambda>_.
                write_parts lib batch rest (files[file_index := files ! file_index @ [part]])))"

fun first_pass :: "('r, 'g) shuffle_lib \<Rightarrow> nat \<Rightarrow> nat \<Rightarrow> nat \<Rightarrow> 'r stream \<Rightarrow> nat \<Rightarrow> 'r list list list \<Rightarrow> 'g
    \<Rightarrow> ('r list list list \<times> 'g) result" where
  "first_pass lib num_files cs num_rows [] seen files rng = Inr (files, rng)"
| "first_pass lib num_files cs num_rows (Inl e # data) seen files rng = Inl e"
| "first_pass lib num_files cs num_rows (Inr batch # data) seen files rng =
     (let seen' = seen + length batch
      in if num_rows < seen'
         then Inl (Runtime (''Expected '' @ show_nat num_rows @ '' rows but saw '' @ show_nat seen' @ '' rows''))
         else if seen' \<noteq> num_rows \<and> length batch mod cs \<noteq> 0
         then Inl (Runtime (''Expected batch size ('' @ show_nat (length batch)
                     @ '') to be divisible by clump size ('' @ show_nat cs @ '')''))
         else try_bind (scatter lib num_files cs (length batch) [0..<div_ceil (length batch) cs]
                          (replicate num_files []) rng) (\<lambda>(offsets, rng').
              try_bind (write_parts lib batch (zip [0..<num_files] offsets) files) (\<lambda>files'.
              first_pass lib num_files cs num_rows data seen' files' rng')))"

text \<open>Each file is read back whole and shuffled in memory; a file that fails is an error item.\<close>

fun second_pass :: "('r, 'g) shuffle_lib \<Rightarrow> nat \<Rightarrow> (nat \<times> 'r list list) list \<Rightarrow> 'g \<Rightarrow> 'r stream" where
  "second_pass lib cs [] rng = []"
| "second_pass lib cs ((i, written) # rest) rng =
     (case read_file lib i written of
        Inl e \<Rightarrow> Inl e # second_pass lib cs rest rng
      | Inr batches \<Rightarrow>
          (case shuffle_batch lib (concat batches) rng cs of
             Inl e \<Rightarrow> Inl e # second_pass lib cs rest rng
           | Inr (shuffled, rng') \<Rightarrow> Inr shuffled # second_pass lib cs rest rng'))"

definition do_shuffle ::
  "('r, 'g) shuffle_lib \<Rightarrow> shuffler_config \<Rightarrow> 'r stream \<Rightarrow> nat \<Rightarrow> 'g \<Rightarrow> 'r stream result" where
  "do_shuffle lib cfg data num_rows rng =
     (if max_rows_per_file cfg = 0 then Inl (Panic ''attempt to divide by zero'')
      else let num_files = div_ceil num_rows (max_rows_per_file cfg);
               cs = (case clump_size cfg of None \<Rightarrow> 1 | Some c \<Rightarrow> c)
           in try_bind (create_temp_dir lib (temp_dir cfg)) (\<lambda>_.
              if cs = 0 then Inl (InvalidInput ''clump size must be greater than 0'')
              else try_bind (try_all (create_writer lib) [0..<num_files]) (\<lambda>_.
                   try_bind (first_pass lib num_files cs num_rows data 0 (replicate num_files []) rng) (\<lambda>(files, rng').
                   try_bind (try_all (finish_writer lib) [0..<num_files]) (\<lambda>_.
                   Inr (second_pass lib cs (zip [0..<num_files] files) rng'))))))"

definition shuffle :: "('r, 'g) shuffle_lib \<Rightarrow> shuffler_config \<Rightarrow> 'r stream \<Rightarrow> nat \<Rightarrow> 'r stream result" where
  "shuffle lib cfg data num_rows =
     (let rng = seed_rng lib (seed cfg)
      in if num_rows < max_rows_per_file cfg then in_memory_shuffle lib cfg data rng
         else do_shuffle lib cfg data num_rows rng)"

section \<open>Clumps\<close>

text \<open>Reference: the rows cut into clumps of \<open>cs\<close>, the last one possibly shorter.\<close>

function clumps :: "nat \<Rightarrow> 'r list \<Rightarrow> 'r list list" where
  "clumps cs b = (if cs = 0 \<or> b = [] then [] else take cs b # clumps cs (drop cs b))"
  by pat_completeness auto
termination
  by (relation "measure (\<lambda>(cs, b). length b)") auto

declare clumps.simps [simp del]

lemma clumps_Nil [simp]: "clumps cs [] = []"
  by (simp add: clumps.simps)

lemma clumps_step: "0 < cs \<Longrightarrow> b \<noteq> [] \<Longrightarrow> clumps cs b = take cs b # clumps cs (drop cs b)"
  by (subst clumps.simps) simp

lemma concat_clumps: "0 < cs \<Longrightarrow> concat (clumps cs b) = b"
proof (induction cs b rule: clumps.induct)
  case (1 cs b)
  then show ?case by (cases "b = []") (auto simp: clumps_step)
qed

lemma less_div_ceil: "0 < cs \<Longrightarrow> i < div_ceil n cs \<longleftrightarrow> i * cs < n"
  unfolding div_ceil_def by (subst less_eq_Suc_le, subst less_eq_div_iff_mult_less_eq) auto

lemma div_ceil_step: "0 < cs \<Longrightarrow> 0 < n \<Longrightarrow> div_ceil n cs = Suc (div_ceil (n - cs) cs)"
proof -
  assume cs: "0 < cs" and n: "0 < n"
  have "i < div_ceil n cs \<longleftrightarrow> i < Suc (div_ceil (n - cs) cs)" for i
    using cs n by (cases i) (auto simp: less_div_ceil)
  then show ?thesis by (metis linorder_neqE_nat less_irrefl)
qed

lemma clumps_nth:
  "0 < cs \<Longrightarrow> clumps cs b = map (\<lambda>i. take cs (drop (i * cs) b)) [0..<div_ceil (length b) cs]"
proof (induction cs b rule: clumps.induct)
  case (1 cs b)
  show ?case
  proof (cases "b = []")
    case True
    then show ?thesis using 1(2) by (simp add: div_ceil_def)
  next
    case False
    let ?d = "div_ceil (length b - cs) cs"
    have ih: "clumps cs (drop cs b) = map (\<lambda>i. take cs (drop (i * cs) (drop cs b))) [0..<?d]"
      using 1 False by simp
    have "[0..<Suc ?d] = 0 # map Suc [0..<?d]" by (simp add: upt_conv_Cons map_Suc_upt del: upt_Suc)
    then show ?thesis using 1(2) False ih
      by (simp add: clumps_step [of cs b] div_ceil_step [of cs "length b"] add.commute comp_def del: upt_Suc)
  qed
qed

lemma map_nth_upt: "e \<le> length b \<Longrightarrow> map (\<lambda>i. b ! i) [s..<e] = take (e - s) (drop s b)"
  by (rule nth_equalityI) auto

lemma clump_range_rows:
  assumes "0 < cs" "i < div_ceil (length b) cs"
  shows "map (\<lambda>i. b ! i) (clump_range (length b) cs i) = take cs (drop (i * cs) b)"
proof (cases "i = div_ceil (length b) cs - 1")
  case True
  then have "\<not> Suc i < div_ceil (length b) cs" by simp
  then have "length b \<le> cs + i * cs" using assms by (simp add: less_div_ceil)
  then show ?thesis using True by (simp add: clump_range_def map_nth_upt)
next
  case False
  then have "Suc i < div_ceil (length b) cs" using assms by simp
  then have "cs + i * cs < length b" using assms by (simp add: less_div_ceil)
  then show ?thesis using False by (simp add: clump_range_def map_nth_upt)
qed

lemma clump_range_one: "i < n \<Longrightarrow> clump_range n (Suc 0) i = [i]"
  by (cases n) (auto simp: clump_range_def div_ceil_def less_Suc_eq)

lemma mset_map_nth: "mset p = mset [0..<length xs] \<Longrightarrow> mset (map (\<lambda>i. xs ! i) p) = mset xs"
  by (metis map_nth mset_map)

text \<open>Shuffling a batch permutes its clumps.\<close>

lemma shuffle_batch_clumps:
  assumes laws: "shuffle_laws lib" and cs: "0 < cs"
  shows "\<exists>cl rng'. shuffle_batch lib b rng cs = Inr (concat cl, rng') \<and> mset cl = mset (clumps cs b)"
proof -
  let ?n = "div_ceil (length b) cs"
  obtain p g where p: "shuffle_vec lib [0..<?n] rng = (p, g)" by force
  have perm: "mset p = mset [0..<?n]" using laws p by (metis fst_conv shuffle_laws_def)
  then have bound: "\<forall>i \<in> set p. i < ?n" by (metis atLeastLessThan_iff set_mset_mset set_upt)
  let ?cl = "map (\<lambda>i. take cs (drop (i * cs) b)) p"
  have "concat (map (clump_range (length b) (Suc 0)) p) = p" if "cs = 1"
    using bound that by (induction p) (auto simp: clump_range_one div_ceil_def)
  then have "(if cs = 1 then p else concat (map (clump_range (length b) cs) p))
             = concat (map (clump_range (length b) cs) p)" by simp
  moreover have "map (\<lambda>i. b ! i) (concat (map (clump_range (length b) cs) p)) = concat ?cl"
    using bound clump_range_rows [OF cs, of _ b] by (simp add: map_concat comp_def cong: map_cong)
  moreover have "mset ?cl = mset (clumps cs b)"
    using perm cs by (simp add: clumps_nth)
  ultimately show ?thesis using cs p by (auto simp: shuffle_batch_def Let_def)
qed

subsection \<open>Aligned clumps\<close>

text \<open>Clumps that cutting their concatenation gives back: full ones, then possibly a shorter one.\<close>

fun aligned :: "nat \<Rightarrow> 'r list list \<Rightarrow> bool" where
  "aligned cs [] = True"
| "aligned cs (c # rest) =
     (c \<noteq> [] \<and> length c \<le> cs \<and> (rest \<noteq> [] \<longrightarrow> length c = cs) \<and> aligned cs rest)"

definition full :: "nat \<Rightarrow> 'r list list \<Rightarrow> bool" where
  "full cs cl = list_all (\<lambda>c. length c = cs) cl"

lemma clumps_aligned: "0 < cs \<Longrightarrow> aligned cs (clumps cs b)"
proof (induction cs b rule: clumps.induct)
  case (1 cs b)
  show ?case
  proof (cases "b = []")
    case False
    have "length b \<le> cs \<Longrightarrow> clumps cs (drop cs b) = []" by simp
    then show ?thesis using 1 False by (auto simp: clumps_step [of cs b] min_def)
  qed simp
qed

lemma clumps_concat: "0 < cs \<Longrightarrow> aligned cs cl \<Longrightarrow> clumps cs (concat cl) = cl"
proof (induction cl)
  case (Cons c rest)
  then show ?case by (cases "rest = []") (auto simp: clumps_step [of cs "c @ concat rest"] clumps_step [of cs c])
qed simp

lemma mod_zero_le: "0 < n \<Longrightarrow> n mod cs = 0 \<Longrightarrow> cs \<le> (n::nat)"
  by (rule dvd_imp_le) (simp_all add: mod_eq_0_iff_dvd)

lemma mod_sub_self: "cs \<le> n \<Longrightarrow> (n - cs) mod cs = (n::nat) mod cs"
  by (rule le_mod_geq [symmetric])

lemma clumps_full: "0 < cs \<Longrightarrow> length b mod cs = 0 \<Longrightarrow> full cs (clumps cs b)"
proof (induction cs b rule: clumps.induct)
  case (1 cs b)
  show ?case
  proof (cases "b = []")
    case False
    then have le: "cs \<le> length b" using mod_zero_le [OF _ 1(3)] by simp
    have "length (drop cs b) mod cs = 0" using mod_sub_self [OF le] 1(3) by (simp only: length_drop)
    from 1(1) [OF _ 1(2) this] False 1(2) have "full cs (clumps cs (drop cs b))" by simp
    with le show ?thesis unfolding clumps_step [OF 1(2) False] full_def by simp
  qed (simp add: full_def)
qed

lemma clumps_append: "0 < cs \<Longrightarrow> length a mod cs = 0 \<Longrightarrow> clumps cs (a @ b) = clumps cs a @ clumps cs b"
proof (induction cs a rule: clumps.induct)
  case (1 cs a)
  show ?case
  proof (cases "a = []")
    case False
    then have le: "cs \<le> length a" using mod_zero_le [OF _ 1(3)] by simp
    have "length (drop cs a) mod cs = 0" using mod_sub_self [OF le] 1(3) by (simp only: length_drop)
    from 1(1) [OF _ 1(2) this] False 1(2)
    have "clumps cs (drop cs a @ b) = clumps cs (drop cs a) @ clumps cs b" by simp
    then show ?thesis using 1(2) False le by (simp add: clumps_step [of cs a] clumps_step [of cs "a @ b"])
  qed simp
qed

lemma aligned_append: "0 < cs \<Longrightarrow> full cs xs \<Longrightarrow> aligned cs ys \<Longrightarrow> aligned cs (xs @ ys)"
  by (induction xs) (auto simp: full_def)

lemma full_append [simp]: "full cs (xs @ ys) = (full cs xs \<and> full cs ys)"
  by (auto simp: full_def)

lemma aligned_nths: "aligned cs xs \<Longrightarrow> aligned cs (nths xs I)"
  by (induction xs arbitrary: I) (auto simp: nths_Cons)

lemma full_nths: "full cs xs \<Longrightarrow> full cs (nths xs I)"
  unfolding full_def list_all_iff using set_nths_subset [of xs I] by blast

lemma nths_filter_upt: "nths xs {i. P i} = map (\<lambda>i. xs ! i) (filter P [0..<length xs])"
proof (induction xs rule: rev_induct)
  case (snoc x xs)
  have "map (\<lambda>i. (xs @ [x]) ! i) (filter P [0..<length xs]) = map (\<lambda>i. xs ! i) (filter P [0..<length xs])"
    by (auto simp: nth_append)
  with snoc show ?case by (simp add: nths_append)
qed simp

text \<open>Distributing a list over buckets keeps its elements.\<close>

lemma mset_distribute:
  assumes "\<forall>i. a i < n"
  shows "sum_list (map (\<lambda>f. mset (nths xs {i. a i = f})) [0..<n]) = mset xs"
  using assms
proof (induction xs arbitrary: a)
  case (Cons x xs)
  have "sum_list (map (\<lambda>f. mset (nths (x # xs) {i. a i = f})) [0..<n])
        = sum_list (map (\<lambda>f. (if f = a 0 then {#x#} else {#}) + mset (nths xs {i. a (Suc i) = f})) [0..<n])"
    by (intro arg_cong [where f = sum_list] map_cong) (auto simp: nths_Cons)
  also have "\<dots> = sum_list (map (\<lambda>f. if f = a 0 then {#x#} else {#}) [0..<n]) + mset xs"
    using Cons by (simp add: sum_list_addf)
  also have "sum_list (map (\<lambda>f. if f = a 0 then {#x#} else {#}) [0..<n]) = {#x#}"
    using Cons.prems by (simp add: sum_list_distinct_conv_sum_set)
  finally show ?case by simp
qed simp

section \<open>Shuffling through files\<close>

abbreviation clump_rows :: "nat \<Rightarrow> nat \<Rightarrow> nat \<Rightarrow> nat list" where
  "clump_rows cs n i \<equiv> [i * cs..<i * cs + min cs (n - i * cs)]"

lemma scatter_spec:
  assumes laws: "shuffle_laws lib" and nf: "0 < nf"
  shows "distinct is \<Longrightarrow> length offsets = nf \<Longrightarrow>
    \<exists>a rng'. (\<forall>i. a i < nf) \<and>
      scatter lib nf cs n is offsets rng
        = Inr (map (\<lambda>f. offsets ! f @ concat (map (clump_rows cs n) (filter (\<lambda>i. a i = f) is))) [0..<nf], rng')"
proof (induction "is" arbitrary: offsets rng)
  case Nil
  then show ?case using nf map_nth [of offsets] by (intro exI [of _ "\<lambda>_. 0"]) simp
next
  case (Cons x rest)
  obtain f g where fg: "random_below lib nf rng = (f, g)" by force
  then have f: "f < nf" using laws nf by (metis fst_conv shuffle_laws_def)
  let ?o = "offsets[f := offsets ! f @ clump_rows cs n x]"
  from Cons.IH [of ?o g] Cons.prems obtain a g' where a: "\<forall>i. a i < nf"
    "scatter lib nf cs n rest ?o g
       = Inr (map (\<lambda>f. ?o ! f @ concat (map (clump_rows cs n) (filter (\<lambda>i. a i = f) rest))) [0..<nf], g')"
    by auto
  let ?a = "a(x := f)"
  have "filter (\<lambda>i. ?a i = h) rest = filter (\<lambda>i. a i = h) rest" for h
    using Cons.prems by (intro filter_cong) auto
  then have "map (\<lambda>h. ?o ! h @ concat (map (clump_rows cs n) (filter (\<lambda>i. a i = h) rest))) [0..<nf]
     = map (\<lambda>h. offsets ! h @ concat (map (clump_rows cs n) (filter (\<lambda>i. ?a i = h) (x # rest)))) [0..<nf]"
    using f Cons.prems by (auto simp: nth_list_update)
  with a f fg Cons.prems show ?case by (intro exI [of _ ?a] exI [of _ g']) (simp add: Let_def)
qed

lemma clump_rows_take: "map (\<lambda>i. b ! i) (clump_rows cs (length b) i) = take cs (drop (i * cs) b)"
proof (cases "i * cs \<le> length b")
  case True
  then show ?thesis by (subst map_nth_upt) (auto simp: min_def)
qed simp

lemma write_parts_spec:
  "write_parts lib b ps files = Inr files' \<Longrightarrow> distinct (map fst ps) \<Longrightarrow> \<forall>p \<in> set ps. fst p < length files \<Longrightarrow>
     length files' = length files \<and>
     (\<forall>f < length files. concat (files' ! f)
        = concat (files ! f) @ (case map_of ps f of None \<Rightarrow> [] | Some os \<Rightarrow> map (\<lambda>i. b ! i) os))"
proof (induction lib b ps files rule: write_parts.induct)
  case (2 lib b k os rest files)
  have notin: "map_of rest k = None" using 2(4) by (auto simp: map_of_eq_None_iff)
  show ?case
  proof (cases "os = []")
    case True
    with 2 notin show ?thesis by auto
  next
    case False
    let ?files = "files[k := files ! k @ [map (\<lambda>i. b ! i) os]]"
    from 2(3) False obtain u where "write_batch lib k (map (\<lambda>i. b ! i) os) = Inr u"
      "write_parts lib b rest ?files = Inr files'" by (auto simp: try_bind_Inr_iff Let_def)
    with 2(2) [OF False refl this(2)] 2(4,5) notin False show ?thesis by (auto simp: nth_list_update)
  qed
qed auto

text \<open>The files hold the clumps \<open>C\<close>, one list per file; until the last row all of them are full.\<close>

definition files_hold :: "nat \<Rightarrow> 'r list list list \<Rightarrow> 'r list list list \<Rightarrow> bool" where
  "files_hold cs files C =
     (length C = length files \<and>
      (\<forall>f < length files. concat (files ! f) = concat (C ! f) \<and> aligned cs (C ! f)))"

definition all_full :: "nat \<Rightarrow> 'r list list list \<Rightarrow> bool" where
  "all_full cs C = (\<forall>f < length C. full cs (C ! f))"

definition deal :: "(nat \<Rightarrow> nat) \<Rightarrow> 'r list list \<Rightarrow> 'r list list list \<Rightarrow> 'r list list list" where
  "deal a cl C = map (\<lambda>f. C ! f @ nths cl {i. a i = f}) [0..<length C]"

lemma deal_mset: "\<forall>i. a i < length C \<Longrightarrow> mset (concat (deal a cl C)) = mset (concat C) + mset cl"
proof -
  assume a: "\<forall>i. a i < length C"
  have "map mset C = map (\<lambda>f. mset (C ! f)) [0..<length C]" by (rule nth_equalityI) simp_all
  then have "mset (concat C) = sum_list (map (\<lambda>f. mset (C ! f)) [0..<length C])"
    by (simp add: mset_concat)
  then show ?thesis using mset_distribute [OF a, of cl]
    by (simp add: deal_def mset_concat comp_def sum_list_addf)
qed

lemma deal_hold:
  assumes "0 < cs" "files_hold cs files C" "all_full cs C"
    and "length files' = length files"
    and "\<forall>f < length files. concat (files' ! f) = concat (files ! f) @ concat (nths (clumps cs b) {i. a i = f})"
  shows "files_hold cs files' (deal a (clumps cs b) C)"
    and "length b mod cs = 0 \<Longrightarrow> all_full cs (deal a (clumps cs b) C)"
proof -
  note al = aligned_nths [OF clumps_aligned [OF assms(1)]]
  show "files_hold cs files' (deal a (clumps cs b) C)"
    using assms(2-5) by (auto simp: files_hold_def deal_def all_full_def intro!: aligned_append [OF assms(1)] al)
  show "all_full cs (deal a (clumps cs b) C)" if "length b mod cs = 0"
    using assms(3) by (auto simp: deal_def all_full_def intro!: full_nths clumps_full [OF assms(1) that])
qed

lemma batch_step:
  assumes laws: "shuffle_laws lib" and cs: "0 < cs" and nf: "0 < nf" "length files = nf"
    and sc: "scatter lib nf cs (length b) [0..<div_ceil (length b) cs] (replicate nf []) rng = Inr (offsets, rng')"
    and wr: "write_parts lib b (zip [0..<nf] offsets) files = Inr files'"
  shows "\<exists>a. (\<forall>i. a i < nf) \<and> length files' = nf \<and>
    (\<forall>f < nf. concat (files' ! f) = concat (files ! f) @ concat (nths (clumps cs b) {i. a i = f}))"
proof -
  let ?n = "div_ceil (length b) cs"
  obtain a g where a: "\<forall>i. a i < nf" "offsets = map (\<lambda>f. replicate nf [] ! f
      @ concat (map (clump_rows cs (length b)) (filter (\<lambda>i. a i = f) [0..<?n]))) [0..<nf]"
    using scatter_spec [OF laws nf(1), of "[0..<?n]" "replicate nf []" cs "length b" rng] sc by auto
  have len: "length offsets = nf" using a(2) by simp
  have mo: "map_of (zip [0..<nf] offsets) f = Some (offsets ! f)" if "f < nf" for f
    using that len map_of_zip_nth [of "[0..<nf]" offsets f] by simp
  have d: "distinct (map fst (zip [0..<nf] offsets))" using len by simp
  have "\<forall>p \<in> set (zip [0..<nf] offsets). fst p < length files"
    using nf(2) by (auto dest: set_zip_leftD)
  from write_parts_spec [OF wr d this] nf(2) have w: "length files' = nf"
    "\<forall>f < nf. concat (files' ! f) = concat (files ! f) @ map (\<lambda>i. b ! i) (offsets ! f)"
    by (simp_all add: mo)
  have "map (\<lambda>i. b ! i) (offsets ! f) = concat (nths (clumps cs b) {i. a i = f})" if "f < nf" for f
  proof -
    have "map (\<lambda>i. b ! i) (offsets ! f)
          = concat (map (\<lambda>i. take cs (drop (i * cs) b)) (filter (\<lambda>i. a i = f) [0..<?n]))"
      using that unfolding a(2) by (simp add: map_concat o_def clump_rows_take del: upt_Suc)
    moreover have "map (\<lambda>i. take cs (drop (i * cs) b)) (filter (\<lambda>i. a i = f) [0..<?n])
          = map (\<lambda>i. clumps cs b ! i) (filter (\<lambda>i. a i = f) [0..<length (clumps cs b)])"
      using cs by (simp add: clumps_nth)
    ultimately show ?thesis by (simp add: nths_filter_upt)
  qed
  with a(1) w show ?thesis by auto
qed

lemma first_pass_step:
  assumes "first_pass lib nf cs n (Inr b # data) seen files rng = Inr (files', rng')"
  obtains offsets g files1 where
    "seen + length b \<le> n" "seen + length b = n \<or> length b mod cs = 0"
    "scatter lib nf cs (length b) [0..<div_ceil (length b) cs] (replicate nf []) rng = Inr (offsets, g)"
    "write_parts lib b (zip [0..<nf] offsets) files = Inr files1"
    "first_pass lib nf cs n data (seen + length b) files1 g = Inr (files', rng')"
  using assms by (auto simp: Let_def try_bind_Inr_iff split: if_splits prod.splits)

lemma first_pass_clumps:
  assumes laws: "shuffle_laws lib" and cs: "0 < cs" and nf: "0 < nf"
  shows "first_pass lib nf cs n data seen files rng = Inr (files', rng') \<Longrightarrow> length files = nf \<Longrightarrow>
    seen \<le> n \<Longrightarrow> files_hold cs files C \<Longrightarrow> (seen < n \<longrightarrow> all_full cs C) \<Longrightarrow>
    \<exists>C'. files_hold cs files' C' \<and> length files' = nf \<and> seen + length (rows_of data) \<le> n
         \<and> mset (concat C') = mset (concat C) + mset (clumps cs (rows_of data))"
proof (induction data arbitrary: seen files rng C)
  case Nil
  then show ?case by auto
next
  case (Cons item data)
  then obtain b where item: "item = Inr b" by (cases item) auto
  from Cons.prems(1) [unfolded item] obtain offsets g files1 where
    step: "seen + length b \<le> n" "seen + length b = n \<or> length b mod cs = 0"
    "scatter lib nf cs (length b) [0..<div_ceil (length b) cs] (replicate nf []) rng = Inr (offsets, g)"
    "write_parts lib b (zip [0..<nf] offsets) files = Inr files1"
    "first_pass lib nf cs n data (seen + length b) files1 g = Inr (files', rng')"
    by (rule first_pass_step)
  from batch_step [OF laws cs nf Cons.prems(2) step(3,4)] obtain a where a: "\<forall>i. a i < nf"
    "length files1 = nf"
    "\<forall>f < nf. concat (files1 ! f) = concat (files ! f) @ concat (nths (clumps cs b) {i. a i = f})" by auto
  have len: "length C = nf" using Cons.prems(2,4) by (simp add: files_hold_def)
  show ?case
  proof (cases "b = []")
    case True
    then have "concat (nths (clumps cs b) I) = []" for I by simp
    then have "files_hold cs files1 C" using a Cons.prems(2,4) by (simp add: files_hold_def)
    with Cons.IH [OF step(5) a(2)] True item Cons.prems(3,5) show ?thesis by simp
  next
    case False
    then have full: "all_full cs C" using Cons.prems(5) step(1) by (cases b) auto
    let ?C = "deal a (clumps cs b) C"
    have "\<forall>f < length files. concat (files1 ! f) = concat (files ! f) @ concat (nths (clumps cs b) {i. a i = f})"
      "length files1 = length files" using a(2,3) Cons.prems(2) by simp_all
    note d = deal_hold [OF cs Cons.prems(4) full this(2,1)]
    have "seen + length b < n \<longrightarrow> all_full cs ?C" using d(2) step(2) by auto
    from Cons.IH [OF step(5) a(2) step(1) d(1) this] obtain C' where C': "files_hold cs files' C'"
      "length files' = nf" "seen + length b + length (rows_of data) \<le> n"
      "mset (concat C') = mset (concat ?C) + mset (clumps cs (rows_of data))" by blast
    have "clumps cs (b @ rows_of data) = clumps cs b @ clumps cs (rows_of data)"
      using step(2) C'(3) clumps_append [OF cs, of b "rows_of data"] by (cases "rows_of data = []") auto
    then show ?thesis using C' deal_mset [of a C "clumps cs b"] a(1) len item by auto
  qed
qed

lemma second_pass_clumps:
  assumes laws: "shuffle_laws lib" and cs: "0 < cs"
  shows "try_collect (second_pass lib cs ps rng) = Inr bs \<Longrightarrow> length C = length ps \<Longrightarrow>
    \<forall>k < length ps. concat (snd (ps ! k)) = concat (C ! k) \<and> aligned cs (C ! k) \<Longrightarrow>
    \<exists>cl. concat bs = concat cl \<and> mset cl = mset (concat C)"
proof (induction ps arbitrary: rng bs C)
  case (Cons p ps)
  obtain i written where p: "p = (i, written)" by force
  obtain c C' where C: "C = c # C'" using Cons.prems(2) by (cases C) auto
  have c: "concat written = concat c" "aligned cs c" using Cons.prems(3) p C by force+
  from Cons.prems(1) p obtain got where got: "read_file lib i written = Inr got"
    by (cases "read_file lib i written") (auto simp: try_collect_def)
  then have "concat got = concat c" using laws c by (simp add: shuffle_laws_def)
  then obtain cl g where cl: "shuffle_batch lib (concat got) rng cs = Inr (concat cl, g)" "mset cl = mset c"
    using shuffle_batch_clumps [OF laws cs, of "concat c" rng] clumps_concat [OF cs c(2)] by auto
  from Cons.prems(1) p got cl(1) obtain bs' where bs': "bs = concat cl # bs'"
    "try_collect (second_pass lib cs ps g) = Inr bs'"
    by (auto simp: try_collect_def try_bind_Inr_iff)
  have "\<forall>k < length ps. concat (snd (ps ! k)) = concat (C' ! k) \<and> aligned cs (C' ! k)"
    using Cons.prems(3) C by force
  with Cons.IH [OF bs'(2)] Cons.prems(2) C obtain cl' where
    "concat bs' = concat cl'" "mset cl' = mset (concat C')" by auto
  with bs' cl C show ?case by (intro exI [of _ "cl @ cl'"]) simp
qed (auto simp: try_collect_def)

definition config_clump :: "shuffler_config \<Rightarrow> nat" where
  "config_clump cfg = (case clump_size cfg of None \<Rightarrow> 1 | Some c \<Rightarrow> c)"

lemma in_memory_clumps:
  assumes laws: "shuffle_laws lib" and s: "in_memory_shuffle lib cfg data rng = Inr out" "try_collect out = Inr bs"
  shows "\<exists>cl. concat bs = concat cl \<and> mset cl = mset (clumps (config_clump cfg) (rows_of data))"
proof -
  from s(1) obtain batches shuffled g where b: "try_collect data = Inr batches"
    "shuffle_batch lib (concat batches) rng (config_clump cfg) = Inr (shuffled, g)" "out = [Inr shuffled]"
    by (auto simp: in_memory_shuffle_def try_bind_Inr_iff config_clump_def)
  then have cs: "0 < config_clump cfg" by (auto simp: shuffle_batch_def split: if_splits)
  from shuffle_batch_clumps [OF laws cs, of "rows_of data" rng] b try_collect_rows [OF b(1)] s(2)
  show ?thesis by (auto simp: try_collect_def)
qed

lemma div_ceil_pos: "0 < m \<Longrightarrow> m \<le> n \<Longrightarrow> 0 < div_ceil n m"
  using less_div_ceil [of m 0 n] by simp

lemma files_hold_start: "files_hold cs (replicate nf []) (replicate nf [])"
  by (simp add: files_hold_def)

lemma do_shuffle_clumps:
  assumes laws: "shuffle_laws lib" and big: "max_rows_per_file cfg \<le> n"
    and s: "do_shuffle lib cfg data n rng = Inr out" "try_collect out = Inr bs"
  shows "\<exists>cl. concat bs = concat cl \<and> mset cl = mset (clumps (config_clump cfg) (rows_of data))"
proof -
  let ?nf = "div_ceil n (max_rows_per_file cfg)" and ?cs = "config_clump cfg"
  from s(1) obtain files g where f: "0 < max_rows_per_file cfg" "0 < ?cs"
    "first_pass lib ?nf ?cs n data 0 (replicate ?nf []) rng = Inr (files, g)"
    "out = second_pass lib ?cs (zip [0..<?nf] files) g"
    by (auto simp: do_shuffle_def try_bind_Inr_iff Let_def config_clump_def split: if_splits)
  have nf: "0 < ?nf" using div_ceil_pos f(1) big by blast
  have "all_full ?cs (replicate ?nf ([] :: 'a list list))" by (simp add: all_full_def full_def)
  with first_pass_clumps [OF laws f(2) nf f(3) _ _ files_hold_start] obtain C where
    C: "files_hold ?cs files C" "length files = ?nf"
      "mset (concat C) = mset (concat (replicate ?nf [])) + mset (clumps ?cs (rows_of data))" by auto
  from C(3) have m: "mset (concat C) = mset (clumps ?cs (rows_of data))" by (simp add: mset_concat)
  from second_pass_clumps [OF laws f(2) s(2) [unfolded f(4)], of C] C show ?thesis
    unfolding m by (simp add: files_hold_def)
qed

lemma shuffle_clumps:
  assumes "shuffle_laws lib" "shuffle lib cfg data n = Inr out" "try_collect out = Inr bs"
  shows "\<exists>cl. concat bs = concat cl \<and> mset cl = mset (clumps (config_clump cfg) (rows_of data))"
proof (cases "n < max_rows_per_file cfg")
  case True
  with assms(2) have "in_memory_shuffle lib cfg data (seed_rng lib (seed cfg)) = Inr out"
    by (simp add: shuffle_def)
  from in_memory_clumps [OF assms(1) this assms(3)] show ?thesis .
next
  case False
  with assms(2) have "do_shuffle lib cfg data n (seed_rng lib (seed cfg)) = Inr out"
    by (simp add: shuffle_def)
  from do_shuffle_clumps [OF assms(1) _ this assms(3)] False show ?thesis by simp
qed

lemma shuffle_clump_pos: "shuffle lib cfg data n = Inr out \<Longrightarrow> 0 < config_clump cfg"
proof (rule ccontr)
  assume s: "shuffle lib cfg data n = Inr out" and "\<not> 0 < config_clump cfg"
  then have "(case clump_size cfg of None \<Rightarrow> 1 | Some c \<Rightarrow> c) = 0" by (simp add: config_clump_def)
  with s show False
    by (simp add: shuffle_def in_memory_shuffle_def do_shuffle_def shuffle_batch_def try_bind_Inr_iff
        Let_def split: if_splits)
qed

lemma shuffle_rows:
  assumes "shuffle_laws lib" "shuffle lib cfg data n = Inr out" "try_collect out = Inr bs"
  shows "mset (concat bs) = mset (rows_of data)"
proof -
  obtain cl where cl: "concat bs = concat cl" "mset cl = mset (clumps (config_clump cfg) (rows_of data))"
    using shuffle_clumps [OF assms] by blast
  have "mset (concat cl) = sum_mset (image_mset mset (mset cl))"
    by (simp add: mset_concat sum_mset_sum_list [symmetric])
  also have "\<dots> = mset (concat (clumps (config_clump cfg) (rows_of data)))"
    unfolding cl(2) by (simp add: mset_concat sum_mset_sum_list [symmetric])
  finally show ?thesis using cl(1) concat_clumps [OF shuffle_clump_pos [OF assms(2)], of "rows_of data"] by simp
qed

subsection \<open>Success\<close>

definition io_succeeds :: "('r, 'g) shuffle_lib \<Rightarrow> bool" where
  "io_succeeds lib =
     ((\<forall>p. make_temp_dir lib p) \<and> (\<forall>i. create_writer lib i = Inr ()) \<and> (\<forall>i b. write_batch lib i b = Inr ())
      \<and> (\<forall>i. finish_writer lib i = Inr ()) \<and> (\<forall>i w. is_ok (read_file lib i w)))"

lemma shuffle_batch_total: "0 < cs \<Longrightarrow> \<exists>b g. shuffle_batch lib rows rng cs = Inr (b, g)"
  by (cases "shuffle_vec lib [0..<div_ceil (length rows) cs] rng") (simp add: shuffle_batch_def)

lemma read_file_total: "io_succeeds lib \<Longrightarrow> \<exists>got. read_file lib i w = Inr got"
  unfolding io_succeeds_def is_ok_def by (metis old.sum.simps(5) sum.exhaust)

lemma write_parts_total: "io_succeeds lib \<Longrightarrow> \<exists>files'. write_parts lib b ps files = Inr files'"
  by (induction lib b ps files rule: write_parts.induct) (auto simp: io_succeeds_def Let_def)

lemma first_pass_total:
  assumes laws: "shuffle_laws lib" and io: "io_succeeds lib" and nf: "0 < nf"
  shows "length files = nf \<Longrightarrow> seen + length (concat bs) = n \<Longrightarrow> \<forall>b \<in> set (butlast bs). length b mod cs = 0 \<Longrightarrow>
    \<exists>r. first_pass lib nf cs n (map Inr bs) seen files rng = Inr r"
proof (induction bs arbitrary: seen files rng)
  case (Cons b bs)
  have chk: "\<not> n < seen + length b" "seen + length b \<noteq> n \<longrightarrow> length b mod cs = 0"
    using Cons.prems(2,3) by (auto split: if_splits)
  have rest: "\<forall>b \<in> set (butlast bs). length b mod cs = 0" using Cons.prems(3) by (auto split: if_splits)
  obtain offsets g where sc: "scatter lib nf cs (length b) [0..<div_ceil (length b) cs] (replicate nf []) rng
      = Inr (offsets, g)" "length offsets = nf"
    using scatter_spec [OF laws nf, of "[0..<div_ceil (length b) cs]" "replicate nf []" cs "length b" rng] by auto
  obtain files1 where wr: "write_parts lib b (zip [0..<nf] offsets) files = Inr files1"
    using write_parts_total [OF io] by blast
  have "\<forall>p \<in> set (zip [0..<nf] offsets). fst p < length files"
    using Cons.prems(1) by (auto dest: set_zip_leftD)
  with write_parts_spec [OF wr] sc(2) Cons.prems(1) have "length files1 = nf" by simp
  from Cons.IH [OF this _ rest, of "seen + length b" g] Cons.prems(2) obtain r where
    "first_pass lib nf cs n (map Inr bs) (seen + length b) files1 g = Inr r" by auto
  moreover have "\<not> (seen + length b \<noteq> n \<and> length b mod cs \<noteq> 0)" using chk(2) by auto
  ultimately show ?case using chk(1) sc wr by (simp add: Let_def)
qed simp

lemma second_pass_total:
  assumes io: "io_succeeds lib" and cs: "0 < cs"
  shows "\<exists>bs. try_collect (second_pass lib cs ps rng) = Inr bs"
proof (induction ps arbitrary: rng)
  case (Cons p ps)
  obtain i w where p: "p = (i, w)" by force
  obtain got where got: "read_file lib i w = Inr got" using read_file_total [OF io] by blast
  obtain b g where "shuffle_batch lib (concat got) rng cs = Inr (b, g)"
    using shuffle_batch_total [OF cs, of lib "concat got" rng] by auto
  with Cons.IH [of g] p got show ?case by (auto simp: try_collect_def)
qed (simp add: try_collect_def)

lemma try_collect_map_Inr [simp]: "try_collect (map Inr bs) = Inr bs"
  by (induction bs) (auto simp: try_collect_def)

lemma shuffle_total:
  assumes laws: "shuffle_laws lib" and io: "io_succeeds lib" and tmp: "temp_dir cfg \<noteq> NoTempDir"
    and cfg: "0 < config_clump cfg" "0 < max_rows_per_file cfg"
    and bs: "length (concat bs) = n" "\<forall>b \<in> set (butlast bs). length b mod config_clump cfg = 0"
  shows "\<exists>out out'. shuffle lib cfg (map Inr bs) n = Inr out \<and> try_collect out = Inr out'"
proof (cases "n < max_rows_per_file cfg")
  case True
  obtain b g where "shuffle_batch lib (concat bs) (seed_rng lib (seed cfg)) (config_clump cfg) = Inr (b, g)"
    using shuffle_batch_total [OF cfg(1), of lib "concat bs" "seed_rng lib (seed cfg)"] by auto
  with True show ?thesis
    by (simp add: shuffle_def in_memory_shuffle_def config_clump_def try_collect_def [of "[Inr b]"])
next
  case False
  let ?nf = "div_ceil n (max_rows_per_file cfg)" and ?g = "seed_rng lib (seed cfg)"
  have nf: "0 < ?nf" using div_ceil_pos cfg(2) False by simp
  from first_pass_total [OF laws io nf _ _ bs(2), of "replicate ?nf []" 0 n ?g] bs(1) obtain files g where
    f: "first_pass lib ?nf (config_clump cfg) n (map Inr bs) 0 (replicate ?nf []) ?g = Inr (files, g)" by auto
  have "create_temp_dir lib (temp_dir cfg) = Inr ()"
    using io tmp by (cases "temp_dir cfg") (auto simp: io_succeeds_def)
  moreover have "try_all (create_writer lib) xs = Inr ()" "try_all (finish_writer lib) xs = Inr ()" for xs
    using io by (simp_all add: io_succeeds_def try_all_Inr_iff)
  ultimately have "shuffle lib cfg (map Inr bs) n
      = Inr (second_pass lib (config_clump cfg) (zip [0..<?nf] files) g)"
    using False f cfg by (simp add: shuffle_def do_shuffle_def config_clump_def Let_def)
  with second_pass_total [OF io cfg(1)] show ?thesis by blast
qed

section \<open>Properties\<close>

text \<open>A library that satisfies the laws: it reverses a vector, counts through the files and keeps files
  as they are.\<close>

definition sample_lib :: "('r, nat) shuffle_lib" where
  "sample_lib =
     \<lparr>seed_rng = (\<lambda>s. case s of None \<Rightarrow> 0 | Some n \<Rightarrow> n),
      shuffle_vec = (\<lambda>xs g. (rev xs, g + 1)),
      random_below = (\<lambda>n g. (g mod n, g + 1)),
      make_temp_dir = (\<lambda>_. True),
      create_writer = (\<lambda>_. Inr ()),
      write_batch = (\<lambda>_ _. Inr ()),
      finish_writer = (\<lambda>_. Inr ()),
      read_file = (\<lambda>_ written. Inr written)\<rparr>"

lemma sample_lib_laws: "shuffle_laws sample_lib"
  by (simp add: shuffle_laws_def sample_lib_def)

lemma sample_lib_io: "io_succeeds sample_lib"
  by (simp add: io_succeeds_def sample_lib_def)

definition sample_config :: "nat \<Rightarrow> shuffler_config" where
  "sample_config c = \<lparr>seed = Some 1, max_rows_per_file = 4, temp_dir = OsDefault, clump_size = Some c\<rparr>"

text \<open>
  C4 (shuffling keeps clumps). Whatever the random numbers and the batching are, the rows a shuffle delivers are the
  input rows cut into clumps of the configured size, in some order of the clumps: no row is lost or
  repeated and the rows of a clump stay together.
\<close>
theorem shuffle_permutes_clumps:
  assumes "shuffle_laws lib" and "shuffle lib cfg data n = Inr out" and "try_collect out = Inr bs"
  shows "(\<exists>cl. concat bs = concat cl \<and> mset cl = mset (clumps (config_clump cfg) (rows_of data)))
       \<and> mset (concat bs) = mset (rows_of data)"
  using shuffle_clumps [OF assms] shuffle_rows [OF assms] by blast

theorem shuffle_permutes_clumps_witness:
  "shuffle_laws (sample_lib :: (nat, nat) shuffle_lib)
   \<and> shuffle sample_lib (sample_config 2) [Inr [1, 2, 3, 4], Inr [5 :: nat]] 5 = Inr [Inr [3, 4], Inr [5, 1, 2]]
   \<and> mset (concat [[3, 4], [5, 1, 2]]) = mset (rows_of [Inr [1, 2, 3, 4], Inr [5 :: nat]])"
proof -
  have s: "shuffle sample_lib (sample_config 2) [Inr [1, 2, 3, 4], Inr [5 :: nat]] 5 = Inr [Inr [3, 4], Inr [5, 1, 2]]"
    by code_simp
  have c: "try_collect [Inr [3, 4], Inr [5, 1, 2]] = Inr [[3, 4], [5, 1, 2 :: nat]]" by code_simp
  from shuffle_permutes_clumps [OF sample_lib_laws s c] sample_lib_laws s show ?thesis by blast
qed

text \<open>
  C20 (shuffling succeeds). When input and output work and the batches before the last one hold whole clumps, the shuffle
  of a stream with the announced number of rows returns every batch, in memory or through files.
\<close>
theorem shuffle_succeeds:
  assumes "shuffle_laws lib" and "io_succeeds lib" and "temp_dir cfg \<noteq> NoTempDir"
    and "0 < config_clump cfg" and "0 < max_rows_per_file cfg"
    and "length (concat bs) = n" and "\<forall>b \<in> set (butlast bs). length b mod config_clump cfg = 0"
  shows "\<exists>out out'. shuffle lib cfg (map Inr bs) n = Inr out \<and> try_collect out = Inr out'
                    \<and> mset (concat out') = mset (concat bs)"
proof -
  from shuffle_total [OF assms] obtain out out' where
    o: "shuffle lib cfg (map Inr bs) n = Inr out" "try_collect out = Inr out'" by blast
  moreover have "rows_of (map Inr bs) = concat bs" by (induction bs) auto
  ultimately show ?thesis using shuffle_rows [OF assms(1) o] by auto
qed

theorem shuffle_succeeds_witness:
  "shuffle_laws (sample_lib :: (nat, nat) shuffle_lib) \<and> io_succeeds (sample_lib :: (nat, nat) shuffle_lib)
   \<and> temp_dir (sample_config 2) \<noteq> NoTempDir \<and> 0 < config_clump (sample_config 2)
   \<and> 0 < max_rows_per_file (sample_config 2) \<and> length (concat [[1, 2], [3, 4, 5 :: nat]]) = 5
   \<and> list_all (\<lambda>b. length b mod config_clump (sample_config 2) = 0) (butlast [[1, 2], [3, 4, 5 :: nat]])
   \<and> (\<exists>out out'. shuffle sample_lib (sample_config 2) (map Inr [[1, 2], [3, 4, 5 :: nat]]) 5 = Inr out
        \<and> try_collect out = Inr out' \<and> mset (concat out') = mset (concat [[1, 2], [3, 4, 5]]))"
proof -
  have h: "temp_dir (sample_config 2) \<noteq> NoTempDir" "0 < config_clump (sample_config 2)"
    "0 < max_rows_per_file (sample_config 2)" "length (concat [[1, 2], [3, 4, 5 :: nat]]) = 5"
    "\<forall>b \<in> set (butlast [[1, 2], [3, 4, 5 :: nat]]). length b mod config_clump (sample_config 2) = 0"
    by (simp_all add: sample_config_def config_clump_def)
  from shuffle_succeeds [OF sample_lib_laws sample_lib_io h] sample_lib_laws sample_lib_io h show ?thesis
    unfolding list_all_iff by blast
qed

text \<open>A clump size of zero is rejected only on the path through files; in memory it panics.\<close>

lemma zero_clump_panics:
  "try_collect data = Inr batches \<Longrightarrow> clump_size cfg = Some 0 \<Longrightarrow> n < max_rows_per_file cfg \<Longrightarrow>
     shuffle lib cfg data n = Inl (Panic ''attempt to divide by zero'')"
  by (simp add: shuffle_def in_memory_shuffle_def shuffle_batch_def)

text \<open>Announcing more rows than the stream delivers makes a last batch that is not whole clumps an error.\<close>

lemma short_stream_fails:
  "length b < n \<Longrightarrow> length b mod cs \<noteq> 0 \<Longrightarrow>
     \<not> is_ok (first_pass lib nf cs n [Inr b] 0 files rng)"
  by (simp add: Let_def)

end
