(* ===== verification/PermBuilder.thy ===== *)
theory PermBuilder
  imports Shuffle
begin

text \<open>
  Building a permutation table (\<^verbatim>\<open>dataloader/permutation/builder.rs\<close>, the rest of \<^verbatim>\<open>split.rs\<close> and
  \<^verbatim>\<open>util.rs\<close>): scan the row ids of the base table, assign them to splits, shuffle, sort by split,
  and record the version the row ids belong to. The base table, the sort engine, the row hash and the
  catalog are the record \<open>perm_env\<close>; \<open>env_laws\<close> states what is relied on.
\<close>

section \<open>Frames\<close>

datatype 'v cell = U64 nat | Val 'v

type_synonym 'v row = "'v cell list"

text \<open>A record-batch stream with its schema: the column names and the schema metadata.\<close>

record 'v frame =
  columns :: "string list"
  meta :: "(string \<times> string) list"
  batches :: "'v row stream"

definition frame_rows :: "'v frame \<Rightarrow> 'v row list" where
  "frame_rows f = rows_of (batches f)"

definition index_of :: "string \<Rightarrow> string list \<Rightarrow> nat" where
  "index_of c cs = length (takeWhile (\<lambda>d. d \<noteq> c) cs)"

definition column :: "string \<Rightarrow> 'v frame \<Rightarrow> 'v cell list" where
  "column c f = map (\<lambda>r. r ! index_of c (columns f)) (frame_rows f)"

definition ROW_ID :: string where "ROW_ID = ''_rowid''"
definition SPLIT_ID_COLUMN :: string where "SPLIT_ID_COLUMN = ''split_id''"
definition SRC_ROW_ID_COL :: string where "SRC_ROW_ID_COL = ''row_id''"
definition SPLIT_NAMES_CONFIG_KEY :: string where "SPLIT_NAMES_CONFIG_KEY = ''split_names''"
definition BASE_VERSION_CONFIG_KEY :: string where "BASE_VERSION_CONFIG_KEY = ''base_version''"
definition BASE_BRANCH_CONFIG_KEY :: string where "BASE_BRANCH_CONFIG_KEY = ''base_branch''"
definition MAIN_BRANCH :: string where "MAIN_BRANCH = ''main''"

lemmas perm_names = ROW_ID_def SPLIT_ID_COLUMN_def SRC_ROW_ID_COL_def SPLIT_NAMES_CONFIG_KEY_def
  BASE_VERSION_CONFIG_KEY_def BASE_BRANCH_CONFIG_KEY_def MAIN_BRANCH_def

section \<open>Queries and the environment\<close>

datatype select = All | Columns "string list" | Dynamic "(string \<times> string) list" | SelectExpr "(string \<times> string) list"

record query_request =
  q_select :: select
  q_filter :: "string option"
  q_offset :: "nat option"
  q_limit :: "nat option"

definition plain_query :: "select \<Rightarrow> query_request" where
  "plain_query s = \<lparr>q_select = s, q_filter = None, q_offset = None, q_limit = None\<rparr>"

record ('t, 'v) table_ops =
  snapshot_at_current_version :: "'t \<Rightarrow> 't option result"
  get_memwal_spec :: "'t \<Rightarrow> bool result"
  version :: "'t \<Rightarrow> nat result"
  current_branch :: "'t \<Rightarrow> string option"
  count_rows :: "'t \<Rightarrow> string option \<Rightarrow> nat result"
  run_query :: "'t \<Rightarrow> query_request \<Rightarrow> 'v frame result"
  scan_order_is_deterministic :: "'t \<Rightarrow> bool"
  checkout_branch_version :: "'t \<Rightarrow> string \<Rightarrow> nat option \<Rightarrow> 't result"
  table_schema :: "'t \<Rightarrow> (string list \<times> (string \<times> string) list) result"
  create_table :: "string \<Rightarrow> 'v frame \<Rightarrow> 't result"

text \<open>The step of a sort at which the query engine fails.\<close>

datatype sort_stage = BuildRuntime | SetupSort | PlanSort | ExecuteSort

text \<open>\<^verbatim>\<open>DiskManagerMode\<close> of the query engine.\<close>

datatype disk_manager_mode = OsTmpDirectory | Directories "string list" | Disabled

fun to_disk_manager_mode :: "temporary_directory \<Rightarrow> disk_manager_mode" where
  "to_disk_manager_mode OsDefault = OsTmpDirectory"
| "to_disk_manager_mode (Specific path) = Directories [path]"
| "to_disk_manager_mode NoTempDir = Disabled"

text \<open>The query engine's sort gives the schema of its result and batches or error messages.\<close>

record ('t, 'v, 'g) perm_env =
  tables :: "('t, 'v) table_ops"
  shuffling :: "('v row, 'g) shuffle_lib"
  row_hash :: "'v row \<Rightarrow> nat"
  show_f64 :: "float \<Rightarrow> string"
  try_with_column :: "string list \<Rightarrow> string \<Rightarrow> string list result"
  memory_limit_var :: "string option"
  engine_sort :: "nat \<Rightarrow> disk_manager_mode \<Rightarrow> 'v frame \<Rightarrow> string \<Rightarrow>
    sort_stage \<times> string + string list \<times> (string \<times> string) list \<times> (string + 'v row list) list"
  json_names :: "string list \<Rightarrow> string result"
  connect_memory :: "unit result"

section \<open>The splitter\<close>

datatype split_strategy =
    NoSplit
  | RandomSplit "nat option" split_sizes "nat option"
  | HashSplit "string list" "nat list" nat
  | SequentialSplit split_sizes
  | CalculatedSplit string

fun validate_strategy :: "(float \<Rightarrow> string) \<Rightarrow> split_strategy \<Rightarrow> nat \<Rightarrow> unit result" where
  "validate_strategy disp NoSplit num_rows = Inr ()"
| "validate_strategy disp (RandomSplit s sizes c) num_rows = validate_sizes disp sizes num_rows"
| "validate_strategy disp (HashSplit cols weights discard) num_rows =
     (if cols = [] then Inl (InvalidInput ''Hash strategy requires at least one column'')
      else if weights = [] then Inl (InvalidInput ''Hash strategy requires at least one split weight'')
      else if 0 \<in> set weights then Inl (InvalidInput ''Split weights must be greater than 0'')
      else Inr ())"
| "validate_strategy disp (SequentialSplit sizes) num_rows = validate_sizes disp sizes num_rows"
| "validate_strategy disp (CalculatedSplit c) num_rows = Inr ()"

text \<open>A step of a computation that may fail or, because of the loop of \<^const>\<open>to_counts\<close>, not return.\<close>

definition obind :: "'a result option \<Rightarrow> ('a \<Rightarrow> 'b result option) \<Rightarrow> 'b result option" where
  "obind m f = (case m of None \<Rightarrow> None | Some (Inl e) \<Rightarrow> Some (Inl e) | Some (Inr x) \<Rightarrow> f x)"

definition tagged :: "('v row \<times> nat) stream \<Rightarrow> 'v row stream" where
  "tagged s = map (map_sum (\<lambda>e. e) (map (\<lambda>(r, i). r @ [U64 i]))) s"

definition apply_sequential ::
  "('t, 'v, 'g) perm_env \<Rightarrow> 'v frame \<Rightarrow> nat \<Rightarrow> split_sizes \<Rightarrow> 'v frame result option" where
  "apply_sequential env source num_rows sizes =
     obind (to_counts sizes num_rows) (\<lambda>split_sizes. Some (
       try_bind (try_with_column env (columns source) SPLIT_ID_COLUMN) (\<lambda>cols.
       Inr (source\<lparr>columns := cols, batches := tagged (seq_stream split_sizes seq_start (batches source))\<rparr>))))"

definition apply_hash :: "('t, 'v, 'g) perm_env \<Rightarrow> 'v frame \<Rightarrow> nat list \<Rightarrow> nat \<Rightarrow> 'v frame result" where
  "apply_hash env source weights discard_weight =
     (if columns source = [] then Inl (Panic ''attempt to subtract with overflow'')
      else Inr \<lparr>columns = [last (columns source), SPLIT_ID_COLUMN], meta = [],
                batches = tagged (map (map_sum (\<lambda>e. e) (map (\<lambda>(v, i). ([v], i))))
                  (hash_stream (row_hash env) (thresholds 0 weights) (total_weight weights discard_weight)
                     (batches source)))\<rparr>)"

definition splitter_max_rows_per_file :: nat where
  "splitter_max_rows_per_file = 10 * 1024 * 1024"

definition shuffle_frame ::
  "('t, 'v, 'g) perm_env \<Rightarrow> temporary_directory \<Rightarrow> nat option \<Rightarrow> nat option \<Rightarrow> 'v frame \<Rightarrow> nat \<Rightarrow> 'v frame result" where
  "shuffle_frame env tmp sd clump f num_rows =
     try_bind (shuffle (shuffling env)
                 \<lparr>seed = sd, max_rows_per_file = splitter_max_rows_per_file, temp_dir = tmp, clump_size = clump\<rparr>
                 (batches f) num_rows) (\<lambda>bs. Inr (f\<lparr>batches := bs\<rparr>))"

definition apply_splitter ::
  "('t, 'v, 'g) perm_env \<Rightarrow> temporary_directory \<Rightarrow> split_strategy \<Rightarrow> 'v frame \<Rightarrow> nat \<Rightarrow> 'v frame result option" where
  "apply_splitter env tmp strategy source num_rows =
     obind (Some (validate_strategy (show_f64 env) strategy num_rows)) (\<lambda>_.
       case strategy of
         NoSplit \<Rightarrow> apply_sequential env source num_rows (Counts [num_rows])
       | RandomSplit sd sizes clump \<Rightarrow>
           obind (Some (shuffle_frame env tmp sd clump source num_rows)) (\<lambda>shuffled.
             apply_sequential env shuffled num_rows sizes)
       | SequentialSplit sizes \<Rightarrow> apply_sequential env source num_rows sizes
       | CalculatedSplit c \<Rightarrow> Some (Inr source)
       | HashSplit cols weights discard \<Rightarrow> Some (apply_hash env source weights discard))"

definition project :: "split_strategy \<Rightarrow> query_request \<Rightarrow> query_request" where
  "project strategy query =
     (case strategy of
        CalculatedSplit calculation \<Rightarrow>
          query\<lparr>q_select := Dynamic [(SPLIT_ID_COLUMN, calculation), (ROW_ID, ROW_ID)]\<rparr>
      | HashSplit cols weights discard \<Rightarrow> query\<lparr>q_select := Columns (cols @ [ROW_ID])\<rparr>
      | _ \<Rightarrow> query)"

definition orders_by_split_id :: "split_strategy \<Rightarrow> bool" where
  "orders_by_split_id strategy =
     (case strategy of
        HashSplit cols weights discard \<Rightarrow> True
      | CalculatedSplit c \<Rightarrow> True
      | NoSplit \<Rightarrow> False
      | SequentialSplit sizes \<Rightarrow> False
      | RandomSplit sd sizes clump \<Rightarrow> False)"

section \<open>The builder\<close>

datatype permutation_destination = TemporaryTable | Permanent string

datatype shuffle_strategy = RandomShuffle "nat option" "nat option" | NoShuffle

record permutation_config =
  cfg_split_strategy :: split_strategy
  cfg_split_names :: "string list option"
  cfg_shuffle_strategy :: shuffle_strategy
  cfg_filter :: "string option"
  cfg_temp_dir :: temporary_directory
  cfg_destination :: permutation_destination

definition default_permutation_config :: permutation_config where
  "default_permutation_config =
     \<lparr>cfg_split_strategy = NoSplit, cfg_split_names = None, cfg_shuffle_strategy = NoShuffle,
      cfg_filter = None, cfg_temp_dir = OsDefault, cfg_destination = TemporaryTable\<rparr>"

definition with_split_strategy :: "split_strategy \<Rightarrow> string list option \<Rightarrow> permutation_config \<Rightarrow> permutation_config" where
  "with_split_strategy strategy names cfg = cfg\<lparr>cfg_split_strategy := strategy, cfg_split_names := names\<rparr>"

definition with_shuffle_strategy :: "shuffle_strategy \<Rightarrow> permutation_config \<Rightarrow> permutation_config" where
  "with_shuffle_strategy strategy cfg = cfg\<lparr>cfg_shuffle_strategy := strategy\<rparr>"

definition with_filter :: "string \<Rightarrow> permutation_config \<Rightarrow> permutation_config" where
  "with_filter flt cfg = cfg\<lparr>cfg_filter := Some flt\<rparr>"

definition with_temp_dir :: "temporary_directory \<Rightarrow> permutation_config \<Rightarrow> permutation_config" where
  "with_temp_dir dir cfg = cfg\<lparr>cfg_temp_dir := dir\<rparr>"

definition persist :: "string \<Rightarrow> permutation_config \<Rightarrow> permutation_config" where
  "persist table_name cfg = cfg\<lparr>cfg_destination := Permanent table_name\<rparr>"

definition DEFAULT_MEMORY_LIMIT :: nat where
  "DEFAULT_MEMORY_LIMIT = 100 * 1024 * 1024"

definition memory_limit :: "string option \<Rightarrow> nat" where
  "memory_limit var =
     (case parse_uint (2 ^ 64 - 1) (case var of Some s \<Rightarrow> s | None \<Rightarrow> show_nat DEFAULT_MEMORY_LIMIT) of
        Some n \<Rightarrow> n
      | None \<Rightarrow> DEFAULT_MEMORY_LIMIT)"

fun sort_error :: "string \<Rightarrow> sort_stage \<times> string \<Rightarrow> error" where
  "sort_error c (BuildRuntime, e) = Panic e"
| "sort_error c (SetupSort, e) = Other (''Failed to setup sort by '' @ c @ '': '' @ e)"
| "sort_error c (PlanSort, e) = Other (''Failed to plan sort by '' @ c @ '': '' @ e)"
| "sort_error c (ExecuteSort, e) = Other (''Failed to sort by '' @ c @ '': '' @ e)"

definition sort_by_column ::
  "('t, 'v, 'g) perm_env \<Rightarrow> temporary_directory \<Rightarrow> 'v frame \<Rightarrow> string \<Rightarrow> 'v frame result" where
  "sort_by_column env tmp data c =
     (case engine_sort env (memory_limit (memory_limit_var env)) (to_disk_manager_mode tmp) data c of
        Inl failure \<Rightarrow> Inl (sort_error c failure)
      | Inr (cols, md, stream) \<Rightarrow>
          Inr \<lparr>columns = cols, meta = md,
               batches = map (map_sum (\<lambda>e. Other (''Failed to execute sort by '' @ c @ '': '' @ e)) (\<lambda>b. b)) stream\<rparr>)"

text \<open>\<^verbatim>\<open>rename_column\<close>: the first field of that name.\<close>

definition rename_column :: "'v frame \<Rightarrow> string \<Rightarrow> string \<Rightarrow> 'v frame result" where
  "rename_column f old_name new_name =
     (let i = index_of old_name (columns f)
      in if i < length (columns f) then Inr (f\<lparr>columns := (columns f)[i := new_name]\<rparr>)
         else Inl (Arrow (''Unable to get field named '' @ old_name)))"

definition check_memwal :: "bool result \<Rightarrow> unit result" where
  "check_memwal r =
     (case r of
        Inr True \<Rightarrow> Inl (NotSupported (''the data loader does not support tables with a MemWAL write ''
          @ ''spec: rows that have not been flushed to the base table ''
          @ ''have no row id, so a permutation cannot reference them''))
      | Inr False \<Rightarrow> Inr ()
      | Inl (NotSupported m) \<Rightarrow> Inr ()
      | Inl e \<Rightarrow> Inl e)"

definition permutation_metadata ::
  "('t, 'v, 'g) perm_env \<Rightarrow> nat \<Rightarrow> string option \<Rightarrow> string list option \<Rightarrow> (string \<times> string) list result" where
  "permutation_metadata env base_version base_branch split_names =
     try_bind (case split_names of None \<Rightarrow> Inr [] | Some names \<Rightarrow>
                 try_bind (json_names env names) (\<lambda>j. Inr [(SPLIT_NAMES_CONFIG_KEY, j)])) (\<lambda>names.
     Inr ((BASE_VERSION_CONFIG_KEY, show_nat base_version)
          # (case base_branch of None \<Rightarrow> [] | Some b \<Rightarrow> [(BASE_BRANCH_CONFIG_KEY, b)]) @ names))"

text \<open>The assignment and ordering part of \<^verbatim>\<open>build\<close>: split, shuffle and sort the scanned rows.\<close>

definition arrange_rows ::
  "('t, 'v, 'g) perm_env \<Rightarrow> permutation_config \<Rightarrow> 'v frame \<Rightarrow> nat \<Rightarrow> 'v frame result option" where
  "arrange_rows env cfg rows num_rows =
     obind (apply_splitter env (cfg_temp_dir cfg) (cfg_split_strategy cfg) rows num_rows) (\<lambda>split_data.
     obind (Some (case cfg_shuffle_strategy cfg of
                    NoShuffle \<Rightarrow> Inr split_data
                  | RandomShuffle sd clump \<Rightarrow> shuffle_frame env (cfg_temp_dir cfg) sd clump split_data num_rows)) (\<lambda>shuffled.
     let needs_sort = (\<not> orders_by_split_id (cfg_split_strategy cfg) \<or> cfg_shuffle_strategy cfg \<noteq> NoShuffle)
     in Some (if needs_sort then sort_by_column env (cfg_temp_dir cfg) shuffled SPLIT_ID_COLUMN else Inr shuffled)))"

definition build_frame ::
  "('t, 'v, 'g) perm_env \<Rightarrow> permutation_config \<Rightarrow> 't \<Rightarrow> 'v frame result option" where
  "build_frame env cfg table0 =
     (let ops = tables env in
      obind (Some (snapshot_at_current_version ops table0)) (\<lambda>snapshot.
      let table = (case snapshot of Some t \<Rightarrow> t | None \<Rightarrow> table0) in
      obind (Some (check_memwal (get_memwal_spec ops table))) (\<lambda>_.
      obind (Some (version ops table)) (\<lambda>base_version.
      let base_branch = current_branch ops table;
          query = project (cfg_split_strategy cfg)
                    ((plain_query (Columns [ROW_ID]))\<lparr>q_filter := cfg_filter cfg\<rparr>) in
      obind (Some (count_rows ops table (cfg_filter cfg))) (\<lambda>num_rows.
      obind (Some (run_query ops table query)) (\<lambda>scanned.
      obind (Some (if scan_order_is_deterministic ops table then Inr scanned
                   else sort_by_column env (cfg_temp_dir cfg) scanned ROW_ID)) (\<lambda>rows.
      obind (arrange_rows env cfg rows num_rows) (\<lambda>sorted.
      obind (Some (rename_column sorted ROW_ID SRC_ROW_ID_COL)) (\<lambda>renamed.
      obind (Some (permutation_metadata env base_version base_branch (cfg_split_names cfg))) (\<lambda>metadata.
      Some (Inr (renamed\<lparr>meta := metadata\<rparr>))))))))))))"

definition build :: "('t, 'v, 'g) perm_env \<Rightarrow> permutation_config \<Rightarrow> 't \<Rightarrow> 't result option" where
  "build env cfg table0 =
     obind (build_frame env cfg table0) (\<lambda>data.
     obind (Some (case cfg_destination cfg of
                    Permanent table_name \<Rightarrow> Inr table_name
                  | TemporaryTable \<Rightarrow> try_bind (connect_memory env) (\<lambda>_. Inr ''permutation''))) (\<lambda>name.
     Some (create_table (tables env) name data)))"

section \<open>What is relied on\<close>

definition complete :: "'v frame \<Rightarrow> bool" where
  "complete f = is_ok (try_collect (batches f))"

definition selected :: "select \<Rightarrow> string list" where
  "selected s = (case s of Columns cs \<Rightarrow> cs | Dynamic ps \<Rightarrow> map fst ps | SelectExpr ps \<Rightarrow> map fst ps | All \<Rightarrow> [])"

fun u64_le :: "'v cell \<Rightarrow> 'v cell \<Rightarrow> bool" where
  "u64_le (U64 a) (U64 b) = (a \<le> b)"
| "u64_le x y = True"

text \<open>A selection of columns delivers rows of those columns; a sort that delivers all of its batches keeps the
  columns and the rows, and its result ascends in the column; adding a column appends it.\<close>

definition env_laws :: "('t, 'v, 'g) perm_env \<Rightarrow> bool" where
  "env_laws env =
     (shuffle_laws (shuffling env)
      \<and> (\<forall>t q f. run_query (tables env) t q = Inr f \<and> q_select q \<noteq> All \<longrightarrow>
           columns f = selected (q_select q) \<and> (\<forall>r \<in> set (frame_rows f). length r = length (columns f)))
      \<and> (\<forall>limit mode f c cols md bs. engine_sort env limit mode f c = Inr (cols, md, map Inr bs) \<longrightarrow>
           cols = columns f \<and> complete f \<and> mset (concat bs) = mset (frame_rows f)
           \<and> sorted_wrt u64_le (map (\<lambda>r. r ! index_of c cols) (concat bs)))
      \<and> (\<forall>cs c cs'. try_with_column env cs c = Inr cs' \<longrightarrow> cs' = cs @ [c]))"

lemma obind_Inr_iff: "obind m f = Some (Inr y) \<longleftrightarrow> (\<exists>x. m = Some (Inr x) \<and> f x = Some (Inr y))"
  by (auto simp: obind_def split: option.splits sum.splits)

lemma obind_Some [simp]: "obind (Some (Inr x)) f = f x" "obind (Some (Inl e)) f = Some (Inl e)"
  by (simp_all add: obind_def)

lemma is_ok_try_collect: "is_ok (try_collect s) \<longleftrightarrow> list_all is_ok s"
proof (induction s)
  case (Cons x s)
  then show ?case
    by (cases x; cases "try_map (\<lambda>b. b) s") (simp_all add: try_collect_def)
qed (simp add: try_collect_def)

lemma is_ok_map_sum [simp]: "is_ok (map_sum f g x) = is_ok x"
  by (cases x) simp_all

lemma map_sum_ok: "list_all is_ok (map (map_sum f g) s) = list_all is_ok s"
  by (induction s) auto

lemma all_ok_Inr: "list_all is_ok s \<Longrightarrow> \<exists>bs. s = map Inr bs"
proof (induction s)
  case (Cons x s)
  then show ?case by (cases x) (auto intro: exI [of _ "_ # _"])
qed simp

lemma sort_law:
  assumes "env_laws env" "sort_by_column env tmp f c = Inr g" "complete g"
  shows "columns g = columns f" "complete f" "mset (frame_rows g) = mset (frame_rows f)"
    "sorted_wrt u64_le (column c g)"
proof -
  from assms(2) obtain cols md stream where e:
    "engine_sort env (memory_limit (memory_limit_var env)) (to_disk_manager_mode tmp) f c = Inr (cols, md, stream)"
    "g = \<lparr>columns = cols, meta = md,
          batches = map (map_sum (\<lambda>e. Other (''Failed to execute sort by '' @ c @ '': '' @ e)) (\<lambda>b. b)) stream\<rparr>"
    by (auto simp: sort_by_column_def split: sum.splits)
  have "list_all is_ok stream" using assms(3) e(2) by (simp add: complete_def is_ok_try_collect map_sum_ok)
  then obtain bs where bs: "stream = map Inr bs" by (metis all_ok_Inr)
  have "rows_of (map Inr bs) = concat bs" by (induction bs) simp_all
  then have "frame_rows g = concat bs" "columns g = cols" using e(2) bs by (simp_all add: frame_rows_def comp_def)
  then show "columns g = columns f" "complete f" "mset (frame_rows g) = mset (frame_rows f)"
    "sorted_wrt u64_le (column c g)"
    using assms(1) e(1) unfolding env_laws_def bs column_def by metis+
qed

lemma query_law:
  assumes "env_laws env" "run_query (tables env) t q = Inr f" "q_select q \<noteq> All"
  shows "columns f = selected (q_select q)" "\<forall>r \<in> set (frame_rows f). length r = length (columns f)"
  using assms unfolding env_laws_def by blast+

section \<open>The stages\<close>

lemma rows_of_tagged: "rows_of (tagged s) = map (\<lambda>(r, i). r @ [U64 i]) (rows_of s)"
  by (induction s) (auto simp: tagged_def rows_of_def map_sum_def split: sum.splits)

lemma rows_of_map: "rows_of (map (map_sum (\<lambda>e. e) (map g)) s) = map g (rows_of s)"
  by (induction s) (auto simp: rows_of_def split: sum.splits)

lemma empty_sizes_rows: "rows_of (seq_stream [] seq_start s) = []"
proof (induction s)
  case (Cons item s)
  have "\<not> exhausted seq_start" "split_index seq_start = 0" by (simp_all add: seq_start_def)
  with Cons show ?case by (cases item) (auto simp: sequential_split_id_def seq_loop.simps)
qed simp

lemma seq_stream_all: "rows_of (seq_stream sizes seq_start s) = zip (rows_of s) (ids_from sizes 0)"
  using empty_sizes_rows seq_stream_rows [of sizes seq_start s] seq_start_left [of sizes]
  by (cases "sizes = []") (auto simp: ids_from_def)

lemma apply_sequential_rows:
  assumes "env_laws env" "apply_sequential env source n sizes = Some (Inr f)"
  obtains counts where "to_counts sizes n = Some (Inr counts)" "columns f = columns source @ [SPLIT_ID_COLUMN]"
    "frame_rows f = map (\<lambda>(r, i). r @ [U64 i]) (zip (frame_rows source) (ids_from counts 0))"
proof -
  from assms(2) obtain counts cols where c: "to_counts sizes n = Some (Inr counts)"
    "try_with_column env (columns source) SPLIT_ID_COLUMN = Inr cols"
    "f = source\<lparr>columns := cols, batches := tagged (seq_stream counts seq_start (batches source))\<rparr>"
    by (auto simp: apply_sequential_def obind_Inr_iff try_bind_Inr_iff)
  then have "cols = columns source @ [SPLIT_ID_COLUMN]" using assms(1) by (simp add: env_laws_def)
  with c show ?thesis by (intro that) (simp_all add: frame_rows_def rows_of_tagged seq_stream_all)
qed

lemma hash_stream_rows:
  "mset (map fst (rows_of (hash_stream hash ts tw s))) \<subseteq># mset (map last (rows_of s))"
proof (induction hash ts tw s rule: hash_stream.induct)
  case (3 hash ts tw b bs)
  show ?case
  proof (cases "hash_split_id hash ts tw b")
    case (Inr ids)
    have "mset (map fst (List.map_filter (\<lambda>(row, i). map_option (\<lambda>k. (last row, k)) i) (zip b ids)))
          \<subseteq># mset (map last b)"
    proof (induction b ids rule: list_induct2')
      case (4 x xs y ys)
      then show ?case by (cases y) (auto simp: List.map_filter_simps intro: subset_mset.order_trans)
    qed (auto simp: List.map_filter_simps)
    with 3 [OF Inr] Inr show ?thesis by (simp add: subset_mset.add_mono)
  qed simp
qed auto

lemma apply_hash_rows:
  assumes "apply_hash env source ws d = Inr f"
  shows "columns f = [last (columns source), SPLIT_ID_COLUMN]" "columns source \<noteq> []"
    "\<exists>ps. frame_rows f = map (\<lambda>(v, i). [v, U64 i]) ps \<and> mset (map fst ps) \<subseteq># mset (map last (frame_rows source))"
proof -
  show "columns f = [last (columns source), SPLIT_ID_COLUMN]" "columns source \<noteq> []"
    using assms by (auto simp: apply_hash_def split: if_splits)
  let ?s = "hash_stream (row_hash env) (thresholds 0 ws) (total_weight ws d) (batches source)"
  have "frame_rows f = map (\<lambda>(v, i). [v, U64 i]) (rows_of ?s)"
    using assms by (auto simp: apply_hash_def frame_rows_def rows_of_tagged rows_of_map split: if_splits)
  then show "\<exists>ps. frame_rows f = map (\<lambda>(v, i). [v, U64 i]) ps
                 \<and> mset (map fst ps) \<subseteq># mset (map last (frame_rows source))"
    using hash_stream_rows [of "row_hash env" "thresholds 0 ws" "total_weight ws d" "batches source"]
    by (auto simp: frame_rows_def)
qed

lemma shuffle_frame_rows:
  assumes "env_laws env" "shuffle_frame env tmp sd clump f n = Inr g" "complete g"
  shows "columns g = columns f" "mset (frame_rows g) = mset (frame_rows f)"
proof -
  from assms(2) obtain bs where s: "shuffle (shuffling env)
      \<lparr>seed = sd, max_rows_per_file = splitter_max_rows_per_file, temp_dir = tmp, clump_size = clump\<rparr>
      (batches f) n = Inr bs" "g = f\<lparr>batches := bs\<rparr>"
    by (auto simp: shuffle_frame_def try_bind_Inr_iff)
  with assms(3) obtain out where o: "try_collect bs = Inr out"
    by (cases "try_collect bs") (auto simp: complete_def)
  have "shuffle_laws (shuffling env)" using assms(1) by (simp add: env_laws_def)
  from shuffle_rows [OF this s(1) o] try_collect_rows [OF o] s(2)
  show "columns g = columns f" "mset (frame_rows g) = mset (frame_rows f)" by (simp_all add: frame_rows_def)
qed

subsection \<open>Completeness of the stages' inputs\<close>

lemma tagged_ok: "list_all is_ok (tagged s) = list_all is_ok s"
  by (induction s) (simp_all add: tagged_def)

lemma seq_stream_ok: "list_all is_ok (seq_stream sizes st s) \<Longrightarrow> list_all is_ok s"
  by (induction sizes st s rule: seq_stream.induct) (auto split: if_splits sum.splits prod.splits)

lemma apply_sequential_complete:
  assumes "apply_sequential env source n sizes = Some (Inr f)" "complete f"
  shows "complete source"
proof -
  from assms(1) obtain counts where "batches f = tagged (seq_stream counts seq_start (batches source))"
    by (auto simp: apply_sequential_def obind_Inr_iff try_bind_Inr_iff)
  with assms(2) show ?thesis
    using seq_stream_ok [of counts seq_start "batches source"]
    by (simp add: complete_def is_ok_try_collect tagged_ok)
qed

lemma first_pass_ok: "first_pass lib nf cs n data seen files rng = Inr (files', rng') \<Longrightarrow> list_all is_ok data"
proof (induction data arbitrary: seen files rng)
  case (Cons item data)
  then obtain b where item: "item = Inr b" by (cases item) auto
  from Cons.prems [unfolded item] show ?case
    by (rule first_pass_step) (use Cons.IH item in auto)
qed simp

lemma shuffle_input_ok:
  assumes "shuffle lib cfg data n = Inr out"
  shows "is_ok (try_collect data)"
proof (cases "n < max_rows_per_file cfg")
  case True
  with assms have "in_memory_shuffle lib cfg data (seed_rng lib (seed cfg)) = Inr out"
    by (simp add: shuffle_def)
  then show ?thesis by (auto simp: in_memory_shuffle_def try_bind_Inr_iff)
next
  case False
  with assms have "do_shuffle lib cfg data n (seed_rng lib (seed cfg)) = Inr out"
    by (simp add: shuffle_def)
  then obtain nf cs files rng r where "first_pass lib nf cs n data 0 files rng = Inr r"
    by (auto simp: do_shuffle_def try_bind_Inr_iff Let_def split: if_splits)
  then show ?thesis by (cases r) (auto simp: is_ok_try_collect dest: first_pass_ok)
qed

lemma shuffle_frame_complete: "shuffle_frame env tmp sd clump f n = Inr g \<Longrightarrow> complete f"
  by (auto simp: shuffle_frame_def try_bind_Inr_iff complete_def dest: shuffle_input_ok)

subsection \<open>Shapes\<close>

definition scan_query :: "permutation_config \<Rightarrow> query_request" where
  "scan_query cfg =
     project (cfg_split_strategy cfg) ((plain_query (Columns [ROW_ID]))\<lparr>q_filter := cfg_filter cfg\<rparr>)"

definition perm_columns :: "split_strategy \<Rightarrow> string list" where
  "perm_columns strategy =
     (case strategy of CalculatedSplit c \<Rightarrow> [SPLIT_ID_COLUMN, ROW_ID] | _ \<Rightarrow> [ROW_ID, SPLIT_ID_COLUMN])"

definition has_shape :: "string list \<Rightarrow> 'v frame \<Rightarrow> bool" where
  "has_shape cs f = (columns f = cs \<and> (\<forall>r \<in> set (frame_rows f). length r = length cs))"

text \<open>The row id is the last column of every scan.\<close>

definition scanned_ids :: "'v frame \<Rightarrow> 'v cell list" where
  "scanned_ids f = map last (frame_rows f)"

lemma scan_query_not_all: "q_select (scan_query cfg) \<noteq> All"
  by (auto simp: scan_query_def project_def plain_query_def split: split_strategy.splits)

lemma scan_query_columns:
  "selected (q_select (scan_query cfg)) =
     (case cfg_split_strategy cfg of
        CalculatedSplit c \<Rightarrow> [SPLIT_ID_COLUMN, ROW_ID] | HashSplit cs ws d \<Rightarrow> cs @ [ROW_ID] | _ \<Rightarrow> [ROW_ID])"
  by (auto simp: scan_query_def project_def plain_query_def selected_def split: split_strategy.splits)

lemma index_of_perm [simp]:
  "index_of ROW_ID [ROW_ID, SPLIT_ID_COLUMN] = 0" "index_of SPLIT_ID_COLUMN [ROW_ID, SPLIT_ID_COLUMN] = 1"
  "index_of ROW_ID [SPLIT_ID_COLUMN, ROW_ID] = 1" "index_of SPLIT_ID_COLUMN [SPLIT_ID_COLUMN, ROW_ID] = 0"
  by (simp_all add: index_of_def perm_names)

lemma singleton_append_nth:
  assumes "length r = 1"
  shows "(r @ [x]) ! 0 = last r" "(r @ [x]) ! 1 = x"
  using assms by (auto simp: length_Suc_conv)

lemma take_min_length:
  "take (min (length xs) k) xs = take k xs" "take (min k (length xs)) xs = take k xs"
  by (simp_all add: min_def)

lemma sequential_columns:
  assumes laws: "env_laws env" and s: "apply_sequential env source n sizes = Some (Inr f)"
    and shape: "has_shape [ROW_ID] source"
  obtains counts where "to_counts sizes n = Some (Inr counts)" "has_shape [ROW_ID, SPLIT_ID_COLUMN] f"
    "column ROW_ID f = take (sum_list counts) (scanned_ids source)"
    "column SPLIT_ID_COLUMN f = map U64 (take (length (frame_rows source)) (ids_from counts 0))"
proof -
  obtain counts where c: "to_counts sizes n = Some (Inr counts)" "columns f = columns source @ [SPLIT_ID_COLUMN]"
    "frame_rows f = map (\<lambda>(r, i). r @ [U64 i]) (zip (frame_rows source) (ids_from counts 0))"
    using apply_sequential_rows [OF laws s] by blast
  let ?z = "zip (frame_rows source) (ids_from counts 0)"
  have cols: "columns f = [ROW_ID, SPLIT_ID_COLUMN]" using c(2) shape by (simp add: has_shape_def)
  have one: "length r = 1" if "(r, i) \<in> set ?z" for r i
    using that shape by (auto simp: has_shape_def dest: set_zip_leftD)
  have "has_shape [ROW_ID, SPLIT_ID_COLUMN] f"
    using cols c(3) one by (auto simp: has_shape_def)
  moreover have "column ROW_ID f = map last (map fst ?z)"
    by (auto simp: column_def cols c(3)) (metis one singleton_append_nth(1))
  moreover have "column SPLIT_ID_COLUMN f = map U64 (map snd ?z)"
    by (auto simp: column_def cols c(3)) (metis One_nat_def one singleton_append_nth(2))
  ultimately show ?thesis using c(1)
    by (intro that) (simp_all add: map_fst_zip_take map_snd_zip_take ids_from_length [symmetric]
        scanned_ids_def take_map take_min_length)
qed

lemma hash_columns:
  assumes "apply_hash env source ws d = Inr f" "last (columns source) = ROW_ID"
  shows "has_shape [ROW_ID, SPLIT_ID_COLUMN] f" "mset (column ROW_ID f) \<subseteq># mset (scanned_ids source)"
proof -
  from apply_hash_rows [OF assms(1)] obtain ps where
    p: "columns f = [ROW_ID, SPLIT_ID_COLUMN]" "frame_rows f = map (\<lambda>(v, i). [v, U64 i]) ps"
      "mset (map fst ps) \<subseteq># mset (map last (frame_rows source))" using assms(2) by auto
  then show "has_shape [ROW_ID, SPLIT_ID_COLUMN] f" by (auto simp: has_shape_def)
  have "column ROW_ID f = map fst ps" using p by (auto simp: column_def)
  with p(3) show "mset (column ROW_ID f) \<subseteq># mset (scanned_ids source)" by (simp add: scanned_ids_def)
qed

lemma column_mset:
  "columns g = columns f \<Longrightarrow> mset (frame_rows g) = mset (frame_rows f) \<Longrightarrow> mset (column c g) = mset (column c f)"
  by (simp add: column_def)

lemma has_shape_mset:
  "columns g = columns f \<Longrightarrow> mset (frame_rows g) = mset (frame_rows f) \<Longrightarrow> has_shape cs g = has_shape cs f"
  by (simp add: has_shape_def) (metis mset_eq_setD)

lemma scanned_ids_mset:
  "mset (frame_rows g) = mset (frame_rows f) \<Longrightarrow> mset (scanned_ids g) = mset (scanned_ids f)"
  by (simp add: scanned_ids_def)

subsection \<open>Splitting, shuffling and sorting\<close>

lemma obind_assoc_ok: "obind (Some m) f = Some (Inr y) \<longleftrightarrow> (\<exists>x. m = Inr x \<and> f x = Some (Inr y))"
  by (auto simp: obind_Inr_iff)

lemma mset_take_subset: "mset (take n xs) \<subseteq># mset xs"
  by (metis append_take_drop_id mset_append mset_subset_eq_add_left)

lemma splitter_rows:
  assumes laws: "env_laws env" and s: "apply_splitter env tmp strategy source n = Some (Inr f)" and ok: "complete f"
    and shape: "has_shape (case strategy of CalculatedSplit c \<Rightarrow> [SPLIT_ID_COLUMN, ROW_ID]
                            | HashSplit cs ws d \<Rightarrow> cs @ [ROW_ID] | _ \<Rightarrow> [ROW_ID]) source"
  shows "has_shape (perm_columns strategy) f \<and> mset (column ROW_ID f) \<subseteq># mset (scanned_ids source)"
proof -
  have seq: "has_shape [ROW_ID, SPLIT_ID_COLUMN] f \<and> mset (column ROW_ID f) \<subseteq># mset (scanned_ids src)"
    if "apply_sequential env src n sizes = Some (Inr f)" "has_shape [ROW_ID] src" for src sizes
    using sequential_columns [OF laws that] mset_take_subset by metis
  show ?thesis
  proof (cases strategy)
    case NoSplit
    with s shape seq show ?thesis by (simp add: apply_splitter_def perm_columns_def)
  next
    case (SequentialSplit sizes)
    with s shape seq show ?thesis by (auto simp: apply_splitter_def perm_columns_def obind_assoc_ok)
  next
    case (RandomSplit sd sizes clump)
    with s obtain g where g: "shuffle_frame env tmp sd clump source n = Inr g"
      "apply_sequential env g n sizes = Some (Inr f)" by (auto simp: apply_splitter_def obind_assoc_ok)
    note sh = shuffle_frame_rows [OF laws g(1) apply_sequential_complete [OF g(2) ok]]
    have "has_shape [ROW_ID] g" using has_shape_mset [OF sh] shape RandomSplit by simp
    from seq [OF g(2) this] scanned_ids_mset [OF sh(2)] RandomSplit show ?thesis
      by (simp add: perm_columns_def)
  next
    case (HashSplit cs ws d)
    with s have h: "apply_hash env source ws d = Inr f" by (auto simp: apply_splitter_def obind_assoc_ok)
    from shape HashSplit have "last (columns source) = ROW_ID" by (simp add: has_shape_def)
    from hash_columns [OF h this] HashSplit show ?thesis by (simp add: perm_columns_def)
  next
    case (CalculatedSplit c)
    with s have f: "f = source" by (simp add: apply_splitter_def)
    have "r ! 1 = last r" if "r \<in> set (frame_rows source)" for r
      using that shape CalculatedSplit by (auto simp: has_shape_def length_Suc_conv numeral_2_eq_2)
    then have "column ROW_ID f = scanned_ids source"
      using shape CalculatedSplit f by (auto simp: column_def scanned_ids_def has_shape_def)
    with f shape CalculatedSplit show ?thesis by (simp add: perm_columns_def)
  qed
qed

lemma arrange_stages:
  assumes "arrange_rows env cfg source n = Some (Inr f)"
  obtains split_data shuffled where
    "apply_splitter env (cfg_temp_dir cfg) (cfg_split_strategy cfg) source n = Some (Inr split_data)"
    "case cfg_shuffle_strategy cfg of NoShuffle \<Rightarrow> shuffled = split_data
       | RandomShuffle sd clump \<Rightarrow> shuffle_frame env (cfg_temp_dir cfg) sd clump split_data n = Inr shuffled"
    "if \<not> orders_by_split_id (cfg_split_strategy cfg) \<or> cfg_shuffle_strategy cfg \<noteq> NoShuffle
       then sort_by_column env (cfg_temp_dir cfg) shuffled SPLIT_ID_COLUMN = Inr f else f = shuffled"
proof -
  from assms obtain d sh where "apply_splitter env (cfg_temp_dir cfg) (cfg_split_strategy cfg) source n = Some (Inr d)"
    "(case cfg_shuffle_strategy cfg of NoShuffle \<Rightarrow> Inr d
        | RandomShuffle sd clump \<Rightarrow> shuffle_frame env (cfg_temp_dir cfg) sd clump d n) = Inr sh"
    "(if \<not> orders_by_split_id (cfg_split_strategy cfg) \<or> cfg_shuffle_strategy cfg \<noteq> NoShuffle
        then sort_by_column env (cfg_temp_dir cfg) sh SPLIT_ID_COLUMN else Inr sh) = Inr f"
    unfolding arrange_rows_def Let_def obind_Inr_iff by blast
  then show ?thesis by (intro that [of d sh]) (auto split: shuffle_strategy.splits if_splits)
qed

lemma arrange_mset:
  assumes laws: "env_laws env" and a: "arrange_rows env cfg source n = Some (Inr f)" and ok: "complete f"
  obtains split_data where
    "apply_splitter env (cfg_temp_dir cfg) (cfg_split_strategy cfg) source n = Some (Inr split_data)"
    "complete split_data" "columns f = columns split_data" "mset (frame_rows f) = mset (frame_rows split_data)"
    "\<not> orders_by_split_id (cfg_split_strategy cfg) \<or> cfg_shuffle_strategy cfg \<noteq> NoShuffle
       \<Longrightarrow> sorted_wrt u64_le (column SPLIT_ID_COLUMN f)"
proof -
  obtain d sh where st: "apply_splitter env (cfg_temp_dir cfg) (cfg_split_strategy cfg) source n = Some (Inr d)"
    "case cfg_shuffle_strategy cfg of NoShuffle \<Rightarrow> sh = d
       | RandomShuffle sd clump \<Rightarrow> shuffle_frame env (cfg_temp_dir cfg) sd clump d n = Inr sh"
    "if \<not> orders_by_split_id (cfg_split_strategy cfg) \<or> cfg_shuffle_strategy cfg \<noteq> NoShuffle
       then sort_by_column env (cfg_temp_dir cfg) sh SPLIT_ID_COLUMN = Inr f else f = sh"
    using arrange_stages [OF a] by blast
  have sh: "complete sh" "columns f = columns sh" "mset (frame_rows f) = mset (frame_rows sh)"
    using st(3) ok sort_law [OF laws _ ok] by (auto split: if_splits)
  have srt: "\<not> orders_by_split_id (cfg_split_strategy cfg) \<or> cfg_shuffle_strategy cfg \<noteq> NoShuffle
       \<Longrightarrow> sorted_wrt u64_le (column SPLIT_ID_COLUMN f)"
    using st(3) sort_law(4) [OF laws _ ok] by (auto split: if_splits)
  show ?thesis
  proof (cases "cfg_shuffle_strategy cfg")
    case NoShuffle
    with st sh srt that show ?thesis by simp
  next
    case (RandomShuffle sd clump)
    with st(2) have g: "shuffle_frame env (cfg_temp_dir cfg) sd clump d n = Inr sh" by simp
    from that [OF st(1) shuffle_frame_complete [OF g]] shuffle_frame_rows [OF laws g sh(1)] sh srt
    show ?thesis by simp
  qed
qed

section \<open>The permutation table\<close>

text \<open>The handle the scan runs against: a snapshot when the table offers one.\<close>

definition scan_table :: "('t, 'v, 'g) perm_env \<Rightarrow> 't \<Rightarrow> 't \<Rightarrow> bool" where
  "scan_table env table0 table =
     (\<exists>s. snapshot_at_current_version (tables env) table0 = Inr s \<and> table = (case s of Some t \<Rightarrow> t | None \<Rightarrow> table0))"

lemma build_frame_stages:
  assumes "build_frame env cfg table0 = Some (Inr f)"
  obtains table v n scanned rows sorted metadata where
    "scan_table env table0 table" "version (tables env) table = Inr v"
    "count_rows (tables env) table (cfg_filter cfg) = Inr n"
    "run_query (tables env) table (scan_query cfg) = Inr scanned"
    "rows = scanned \<or> sort_by_column env (cfg_temp_dir cfg) scanned ROW_ID = Inr rows"
    "arrange_rows env cfg rows n = Some (Inr sorted)"
    "permutation_metadata env v (current_branch (tables env) table) (cfg_split_names cfg) = Inr metadata"
    "\<exists>renamed. rename_column sorted ROW_ID SRC_ROW_ID_COL = Inr renamed \<and> f = renamed\<lparr>meta := metadata\<rparr>"
proof -
  from assms obtain s v n scanned rows sorted renamed md where
    "snapshot_at_current_version (tables env) table0 = Inr s"
    "version (tables env) (case s of Some t \<Rightarrow> t | None \<Rightarrow> table0) = Inr v"
    "count_rows (tables env) (case s of Some t \<Rightarrow> t | None \<Rightarrow> table0) (cfg_filter cfg) = Inr n"
    "run_query (tables env) (case s of Some t \<Rightarrow> t | None \<Rightarrow> table0) (scan_query cfg) = Inr scanned"
    "(if scan_order_is_deterministic (tables env) (case s of Some t \<Rightarrow> t | None \<Rightarrow> table0) then Inr scanned
      else sort_by_column env (cfg_temp_dir cfg) scanned ROW_ID) = Inr rows"
    "arrange_rows env cfg rows n = Some (Inr sorted)"
    "rename_column sorted ROW_ID SRC_ROW_ID_COL = Inr renamed"
    "permutation_metadata env v (current_branch (tables env) (case s of Some t \<Rightarrow> t | None \<Rightarrow> table0))
       (cfg_split_names cfg) = Inr md" "f = renamed\<lparr>meta := md\<rparr>"
    unfolding build_frame_def Let_def obind_Inr_iff scan_query_def by blast
  then show ?thesis
    by (intro that [where table = "case s of Some t \<Rightarrow> t | None \<Rightarrow> table0"])
      (auto simp: scan_table_def split: if_splits)
qed

lemma rename_perm:
  assumes "rename_column g ROW_ID SRC_ROW_ID_COL = Inr r" "columns g = perm_columns strategy"
  shows "column SRC_ROW_ID_COL r = column ROW_ID g" "column SPLIT_ID_COLUMN r = column SPLIT_ID_COLUMN g"
    "complete r = complete g"
proof -
  have g: "columns g = [ROW_ID, SPLIT_ID_COLUMN] \<or> columns g = [SPLIT_ID_COLUMN, ROW_ID]"
    using assms(2) by (auto simp: perm_columns_def split: split_strategy.splits)
  then show "column SRC_ROW_ID_COL r = column ROW_ID g" "column SPLIT_ID_COLUMN r = column SPLIT_ID_COLUMN g"
    using assms(1) by (auto simp: rename_column_def column_def frame_rows_def Let_def index_of_def perm_names split: if_splits)
  show "complete r = complete g"
    using assms(1) by (auto simp: rename_column_def complete_def Let_def split: if_splits)
qed

lemma column_meta [simp]: "column c (f\<lparr>meta := m\<rparr>) = column c f" "complete (f\<lparr>meta := m\<rparr>) = complete f"
  by (simp_all add: column_def frame_rows_def complete_def)

lemma scan_shape:
  assumes laws: "env_laws env" and q: "run_query (tables env) table (scan_query cfg) = Inr scanned"
  shows "has_shape (case cfg_split_strategy cfg of CalculatedSplit c \<Rightarrow> [SPLIT_ID_COLUMN, ROW_ID]
                      | HashSplit cs ws d \<Rightarrow> cs @ [ROW_ID] | _ \<Rightarrow> [ROW_ID]) scanned"
  using query_law [OF laws q scan_query_not_all] by (simp add: has_shape_def scan_query_columns)

text \<open>A frame that is not sorted, or sorted to the end, has the shape and the ids of the scan.\<close>

lemma rows_of_scan:
  assumes laws: "env_laws env" and r: "rows = scanned \<or> sort_by_column env tmp scanned ROW_ID = Inr rows" and ok: "complete rows"
  shows "columns rows = columns scanned" "mset (frame_rows rows) = mset (frame_rows scanned)"
  using r sort_law [OF laws _ ok] by auto

lemma hash_stream_ok: "list_all is_ok (hash_stream h ts tw s) \<Longrightarrow> list_all is_ok s"
  by (induction h ts tw s rule: hash_stream.induct) (auto split: sum.splits)

lemma apply_splitter_complete:
  assumes "apply_splitter env tmp strategy source n = Some (Inr f)" "complete f"
  shows "complete source"
  using assms
  by (auto simp: apply_splitter_def obind_assoc_ok apply_hash_def map_sum_ok
      complete_def [of f] is_ok_try_collect tagged_ok split: split_strategy.splits if_splits
      intro: apply_sequential_complete shuffle_frame_complete dest!: hash_stream_ok)
    (simp_all add: complete_def is_ok_try_collect)

text \<open>What a built permutation is made of, in terms of the scan.\<close>

lemma build_frame_arranged:
  assumes laws: "env_laws env" and b: "build_frame env cfg table0 = Some (Inr f)" and ok: "complete f"
  obtains table n scanned rows split_data where
    "scan_table env table0 table" "count_rows (tables env) table (cfg_filter cfg) = Inr n"
    "run_query (tables env) table (scan_query cfg) = Inr scanned"
    "columns rows = columns scanned" "mset (frame_rows rows) = mset (frame_rows scanned)"
    "apply_splitter env (cfg_temp_dir cfg) (cfg_split_strategy cfg) rows n = Some (Inr split_data)"
    "complete split_data"
    "mset (column SRC_ROW_ID_COL f) = mset (column ROW_ID split_data)"
    "mset (column SPLIT_ID_COLUMN f) = mset (column SPLIT_ID_COLUMN split_data)"
    "\<not> orders_by_split_id (cfg_split_strategy cfg) \<or> cfg_shuffle_strategy cfg \<noteq> NoShuffle
       \<Longrightarrow> sorted_wrt u64_le (column SPLIT_ID_COLUMN f)"
proof -
  obtain table v n scanned rows sorted metadata where st:
    "scan_table env table0 table" "count_rows (tables env) table (cfg_filter cfg) = Inr n"
    "run_query (tables env) table (scan_query cfg) = Inr scanned"
    "rows = scanned \<or> sort_by_column env (cfg_temp_dir cfg) scanned ROW_ID = Inr rows"
    "arrange_rows env cfg rows n = Some (Inr sorted)"
    "\<exists>renamed. rename_column sorted ROW_ID SRC_ROW_ID_COL = Inr renamed \<and> f = renamed\<lparr>meta := metadata\<rparr>"
    using build_frame_stages [OF b] by metis
  then obtain renamed where rn: "rename_column sorted ROW_ID SRC_ROW_ID_COL = Inr renamed" "f = renamed\<lparr>meta := metadata\<rparr>"
    by blast
  have okr: "complete renamed" using ok rn(2) by simp
  then have oks: "complete sorted"
    using rn(1) by (auto simp: rename_column_def complete_def Let_def split: if_splits)
  obtain d where d: "apply_splitter env (cfg_temp_dir cfg) (cfg_split_strategy cfg) rows n = Some (Inr d)"
    "complete d" "columns sorted = columns d" "mset (frame_rows sorted) = mset (frame_rows d)"
    "\<not> orders_by_split_id (cfg_split_strategy cfg) \<or> cfg_shuffle_strategy cfg \<noteq> NoShuffle
       \<Longrightarrow> sorted_wrt u64_le (column SPLIT_ID_COLUMN sorted)"
    using arrange_mset [OF laws st(5) oks] by metis
  have okrows: "complete rows" using apply_splitter_complete [OF d(1,2)] .
  note rs = rows_of_scan [OF laws st(4) okrows]
  have "has_shape (case cfg_split_strategy cfg of CalculatedSplit c \<Rightarrow> [SPLIT_ID_COLUMN, ROW_ID]
          | HashSplit cs ws d \<Rightarrow> cs @ [ROW_ID] | _ \<Rightarrow> [ROW_ID]) rows"
    using scan_shape [OF laws st(3)] has_shape_mset [OF rs] by blast
  from splitter_rows [OF laws d(1,2) this] have "columns sorted = perm_columns (cfg_split_strategy cfg)"
    using d(3) by (simp add: has_shape_def)
  from rename_perm [OF rn(1) this] rn(2) have cols: "column SRC_ROW_ID_COL f = column ROW_ID sorted"
    "column SPLIT_ID_COLUMN f = column SPLIT_ID_COLUMN sorted" by simp_all
  show ?thesis
    by (rule that [OF st(1-3) rs d(1,2)]) (use cols d column_mset [OF d(3,4)] in simp_all)
qed

subsection \<open>A concrete environment\<close>

text \<open>A table whose rows are their ids, scanned in a given order, with a stable sort.\<close>

fun cell_key :: "'v cell \<Rightarrow> nat" where
  "cell_key (U64 n) = n"
| "cell_key (Val v) = 0"

definition sample_sort ::
  "'v frame \<Rightarrow> string \<Rightarrow> sort_stage \<times> string + string list \<times> (string \<times> string) list \<times> (string + 'v row list) list" where
  "sample_sort f c =
     (case try_collect (batches f) of
        Inl e \<Rightarrow> Inl (ExecuteSort, error_to_string e)
      | Inr bs \<Rightarrow> Inr (columns f, meta f, [Inr (sort_key (\<lambda>r. cell_key (r ! index_of c (columns f))) (concat bs))]))"

definition sample_tables :: "nat list \<Rightarrow> (unit, 'v) table_ops" where
  "sample_tables ids =
     \<lparr>snapshot_at_current_version = (\<lambda>_. Inr None), get_memwal_spec = (\<lambda>_. Inr False), version = (\<lambda>_. Inr 7),
      current_branch = (\<lambda>_. None), count_rows = (\<lambda>_ _. Inr (length ids)),
      run_query = (\<lambda>_ q. Inr \<lparr>columns = selected (q_select q), meta = [],
         batches = [Inr (map (\<lambda>i. map (\<lambda>_. U64 i) (selected (q_select q))) ids)]\<rparr>),
      scan_order_is_deterministic = (\<lambda>_. True), checkout_branch_version = (\<lambda>t b v. Inr t),
      table_schema = (\<lambda>_. Inr ([], [])), create_table = (\<lambda>name f. Inr ())\<rparr>"

definition sample_env :: "nat list \<Rightarrow> (unit, 'v, nat) perm_env" where
  "sample_env ids =
     \<lparr>tables = sample_tables ids, shuffling = sample_lib, row_hash = (\<lambda>r. cell_key (hd r)), show_f64 = (\<lambda>_. ''%''),
      try_with_column = (\<lambda>cs c. Inr (cs @ [c])), memory_limit_var = None,
      engine_sort = (\<lambda>limit mode f c. sample_sort f c),
      json_names = (\<lambda>_. Inr ''[]''), connect_memory = Inr ()\<rparr>"

lemma u64_le_key: "cell_key x \<le> cell_key y \<Longrightarrow> u64_le x y"
  by (cases x; cases y) auto

lemma sample_sort_law:
  assumes "sample_sort f c = Inr (cols, md, map Inr bs)"
  shows "cols = columns f \<and> complete f \<and> mset (concat bs) = mset (frame_rows f)
         \<and> sorted_wrt u64_le (map (\<lambda>r. r ! index_of c cols) (concat bs))"
proof -
  let ?key = "\<lambda>r. cell_key (r ! index_of c (columns f))"
  from assms obtain got where got: "try_collect (batches f) = Inr got" "cols = columns f"
    "[Inr (sort_key ?key (concat got))] = map Inr bs" by (auto simp: sample_sort_def split: sum.splits)
  then have bs: "concat bs = sort_key ?key (concat got)" by (auto simp: Cons_eq_map_conv)
  have "sorted (map ?key (concat bs))" by (simp add: bs)
  then have "sorted_wrt (\<lambda>x y. u64_le (x ! index_of c (columns f)) (y ! index_of c (columns f))) (concat bs)"
    unfolding sorted_map by (rule sorted_wrt_mono_rel [rotated]) (simp add: u64_le_key)
  with got(1,2) bs try_collect_rows [OF got(1)] show ?thesis
    by (simp add: complete_def frame_rows_def sorted_wrt_map)
qed

lemma sample_env_laws: "env_laws (sample_env ids)"
  unfolding env_laws_def
proof (intro conjI)
  show "\<forall>limit mode f c cols md bs. engine_sort (sample_env ids) limit mode f c = Inr (cols, md, map Inr bs) \<longrightarrow>
      cols = columns f \<and> complete f \<and> mset (concat bs) = mset (frame_rows f)
      \<and> sorted_wrt u64_le (map (\<lambda>r. r ! index_of c cols) (concat bs))"
  proof (intro allI impI)
    fix limit mode f c cols md bs
    assume "engine_sort (sample_env ids) limit mode f c = Inr (cols, md, map Inr bs)"
    then have "sample_sort f c = Inr (cols, md, map Inr bs)" by (simp add: sample_env_def)
    then show "cols = columns f \<and> complete f \<and> mset (concat bs) = mset (frame_rows f)
      \<and> sorted_wrt u64_le (map (\<lambda>r. r ! index_of c cols) (concat bs))" by (rule sample_sort_law)
  qed
qed (auto simp: sample_env_def sample_tables_def sample_lib_laws frame_rows_def)

definition sample_cfg :: "split_strategy \<Rightarrow> shuffle_strategy \<Rightarrow> permutation_config" where
  "sample_cfg split shuf =
     with_shuffle_strategy shuf (with_split_strategy split None default_permutation_config)"

section \<open>Properties\<close>

text \<open>
  C8 (permutation rows). Every row id of a built permutation comes from the scan of the base table, no more often than
  there; and the table is sorted by split id whenever the split is not by hash or calculation or the rows
  were shuffled.
\<close>
theorem permutation_sound:
  assumes "env_laws env" and "build_frame env cfg table0 = Some (Inr f)" and "complete f"
  shows "\<exists>table scanned. scan_table env table0 table
           \<and> run_query (tables env) table (scan_query cfg) = Inr scanned
           \<and> mset (column SRC_ROW_ID_COL f) \<subseteq># mset (scanned_ids scanned)
           \<and> (\<not> orders_by_split_id (cfg_split_strategy cfg) \<or> cfg_shuffle_strategy cfg \<noteq> NoShuffle
                \<longrightarrow> sorted_wrt u64_le (column SPLIT_ID_COLUMN f))"
proof -
  obtain table n scanned rows d where st: "scan_table env table0 table"
    "run_query (tables env) table (scan_query cfg) = Inr scanned"
    "columns rows = columns scanned" "mset (frame_rows rows) = mset (frame_rows scanned)"
    "apply_splitter env (cfg_temp_dir cfg) (cfg_split_strategy cfg) rows n = Some (Inr d)" "complete d"
    "mset (column SRC_ROW_ID_COL f) = mset (column ROW_ID d)"
    "\<not> orders_by_split_id (cfg_split_strategy cfg) \<or> cfg_shuffle_strategy cfg \<noteq> NoShuffle
       \<Longrightarrow> sorted_wrt u64_le (column SPLIT_ID_COLUMN f)"
    using build_frame_arranged [OF assms] by metis
  have "has_shape (case cfg_split_strategy cfg of CalculatedSplit c \<Rightarrow> [SPLIT_ID_COLUMN, ROW_ID]
          | HashSplit cs ws d \<Rightarrow> cs @ [ROW_ID] | _ \<Rightarrow> [ROW_ID]) rows"
    using scan_shape [OF assms(1) st(2)] has_shape_mset [OF st(3,4)] by blast
  from splitter_rows [OF assms(1) st(5,6) this] scanned_ids_mset [OF st(4)] st show ?thesis by auto
qed

theorem permutation_sound_witness:
  "env_laws (sample_env [3, 1, 2] :: (unit, nat, nat) perm_env)
   \<and> build_frame (sample_env [3, 1, 2]) (sample_cfg (SequentialSplit (Counts [1, 2])) (RandomShuffle None None)) ()
     = Some (Inr \<lparr>columns = [''row_id'', ''split_id''], meta = [(''base_version'', ''7'')],
         batches = [Inr [[U64 3, U64 0], [U64 2, U64 1], [U64 1, U64 1 :: nat cell]]]\<rparr>)
   \<and> (\<exists>scanned. run_query (tables (sample_env [3, 1, 2] :: (unit, nat, nat) perm_env)) ()
         (scan_query (sample_cfg (SequentialSplit (Counts [1, 2])) (RandomShuffle None None))) = Inr scanned
       \<and> mset [U64 3, U64 2, U64 1] \<subseteq># mset (scanned_ids scanned))"
proof -
  let ?cfg = "sample_cfg (SequentialSplit (Counts [1, 2])) (RandomShuffle None None)"
  let ?f = "\<lparr>columns = [''row_id'', ''split_id''], meta = [(''base_version'', ''7'')],
         batches = [Inr [[U64 3, U64 0], [U64 2, U64 1], [U64 1, U64 1 :: nat cell]]]\<rparr>"
  have b: "build_frame (sample_env [3, 1, 2]) ?cfg () = Some (Inr ?f)" by code_simp
  have c: "complete ?f" by code_simp
  have "column SRC_ROW_ID_COL ?f = [U64 3, U64 2, U64 1]" by code_simp
  with permutation_sound [OF sample_env_laws b c] sample_env_laws [of "[3, 1, 2]"] b show ?thesis by auto
qed

text \<open>The splits by hash and by calculation are taken to arrive in split order, and are not sorted: with no
  shuffle the permutation keeps the order of the scan.\<close>

lemma hash_permutation_unsorted:
  "build_frame (sample_env [1, 0] :: (unit, nat, nat) perm_env) (sample_cfg (HashSplit [''x''] [1, 1] 0) NoShuffle) ()
   = Some (Inr \<lparr>columns = [''row_id'', ''split_id''], meta = [(''base_version'', ''7'')],
       batches = [Inr [[U64 1, U64 1], [U64 0, U64 0]]]\<rparr>)"
  by code_simp

text \<open>The sizes of the strategies that assign by position.\<close>

fun position_sizes :: "split_strategy \<Rightarrow> nat \<Rightarrow> split_sizes option" where
  "position_sizes NoSplit n = Some (Counts [n])"
| "position_sizes (RandomSplit sd sizes clump) n = Some sizes"
| "position_sizes (SequentialSplit sizes) n = Some sizes"
| "position_sizes _ n = None"

lemma position_split_ids:
  assumes laws: "env_laws env" and s: "apply_splitter env tmp strategy source n = Some (Inr f)" and ok: "complete f"
    and p: "position_sizes strategy n = Some sizes" and shape: "has_shape [ROW_ID] source"
  obtains counts where "to_counts sizes n = Some (Inr counts)"
    "column SPLIT_ID_COLUMN f = map U64 (take (length (frame_rows source)) (ids_from counts 0))"
proof -
  have "\<exists>src. apply_sequential env src n sizes = Some (Inr f) \<and> has_shape [ROW_ID] src
              \<and> length (frame_rows src) = length (frame_rows source)"
  proof (cases strategy)
    case (RandomSplit sd sz clump)
    with s p obtain g where g: "shuffle_frame env tmp sd clump source n = Inr g"
      "apply_sequential env g n sizes = Some (Inr f)" by (auto simp: apply_splitter_def obind_assoc_ok)
    note sh = shuffle_frame_rows [OF laws g(1) apply_sequential_complete [OF g(2) ok]]
    have "has_shape [ROW_ID] g" using has_shape_mset [OF sh] shape by simp
    moreover have "length (frame_rows g) = length (frame_rows source)" using sh(2) by (rule mset_eq_length)
    ultimately show ?thesis using g(2) by blast
  qed (use s p shape in \<open>auto simp: apply_splitter_def obind_assoc_ok\<close>)
  then obtain src where src: "apply_sequential env src n sizes = Some (Inr f)" "has_shape [ROW_ID] src"
    "length (frame_rows src) = length (frame_rows source)" by blast
  from sequential_columns [OF laws src(1,2)] src(3) that show ?thesis by metis
qed

lemma count_map_U64: "count (mset (map U64 xs)) (U64 k) = count_list xs k"
  by (induction xs) auto

lemma ids_from_take_count:
  "j \<le> length sizes \<Longrightarrow> count_list (take m (ids_from sizes j)) k =
     (if j \<le> k \<and> k < length sizes then min (sizes ! k) (m - sum_list (map ((!) sizes) [j..<k])) else 0)"
proof (induction j arbitrary: m rule: inc_induct)
  case base
  then show ?case by (simp add: ids_from_end)
next
  case (step j)
  have *: "take m (ids_from sizes j) = replicate (min m (sizes ! j)) j @ take (m - sizes ! j) (ids_from sizes (Suc j))"
    using step by (simp add: ids_from_step)
  have c: "count_list (replicate i j) k = (if k = j then i else 0)" for i by (induction i) auto
  have "sum_list (map ((!) sizes) [j..<k]) = sizes ! j + sum_list (map ((!) sizes) [Suc j..<k])" if "j < k"
    using that by (simp add: upt_conv_Cons)
  then show ?case using step(2,3) unfolding * count_list_append step.IH c
    by (auto simp: le_less_Suc_eq not_less_eq_eq min.commute)
qed

lemma sum_list_upt_take: "k \<le> length sizes \<Longrightarrow> sum_list (map ((!) sizes) [0..<k]) = sum_list (take k sizes)"
  by (metis map_nth take_map take_upt add_0 length_map)

lemma scan_table_unique: "scan_table env table0 t \<Longrightarrow> scan_table env table0 t' \<Longrightarrow> t = t'"
  by (auto simp: scan_table_def)

text \<open>
  C25 (split sizes). In a permutation split by position, the counts are computed from the number of rows the scanned table
  counts, and split \<open>k\<close> holds exactly as many rows as its count asks for, as far as the scan has rows left
  after the splits before it; no other split id occurs.
\<close>
theorem permutation_splits:
  assumes "env_laws env" and "build_frame env cfg table0 = Some (Inr f)" and "complete f"
    and "scan_table env table0 table" and "count_rows (tables env) table (cfg_filter cfg) = Inr n"
    and "run_query (tables env) table (scan_query cfg) = Inr scanned"
    and "position_sizes (cfg_split_strategy cfg) n = Some sizes"
  shows "\<exists>counts. to_counts sizes n = Some (Inr counts)
           \<and> (\<forall>k. count (mset (column SPLIT_ID_COLUMN f)) (U64 k) =
                (if k < length counts
                 then min (counts ! k) (length (frame_rows scanned) - sum_list (take k counts)) else 0))
           \<and> length (column SPLIT_ID_COLUMN f) = min (sum_list counts) (length (frame_rows scanned))"
proof -
  obtain table' n' scanned' rows d where st: "scan_table env table0 table'"
    "count_rows (tables env) table' (cfg_filter cfg) = Inr n'"
    "run_query (tables env) table' (scan_query cfg) = Inr scanned'"
    "columns rows = columns scanned'" "mset (frame_rows rows) = mset (frame_rows scanned')"
    "apply_splitter env (cfg_temp_dir cfg) (cfg_split_strategy cfg) rows n' = Some (Inr d)" "complete d"
    "mset (column SPLIT_ID_COLUMN f) = mset (column SPLIT_ID_COLUMN d)"
    using build_frame_arranged [OF assms(1-3)] by metis
  have "table' = table" using scan_table_unique [OF st(1) assms(4)] .
  with st(2,3) assms(5,6) have same: "n' = n" "scanned' = scanned" by simp_all
  have "has_shape [ROW_ID] scanned"
    using scan_shape [OF assms(1,6)] assms(7) by (cases "cfg_split_strategy cfg") auto
  then have "has_shape [ROW_ID] rows" using has_shape_mset [OF st(4,5)] same by blast
  from position_split_ids [OF assms(1) st(6,7) assms(7) [folded same(1)] this] obtain counts where
    c: "to_counts sizes n = Some (Inr counts)"
      "column SPLIT_ID_COLUMN d = map U64 (take (length (frame_rows rows)) (ids_from counts 0))"
    unfolding same by blast
  have len: "length (frame_rows rows) = length (frame_rows scanned)" using mset_eq_length [OF st(5)] same by simp
  have "length (column SPLIT_ID_COLUMN f) = length (column SPLIT_ID_COLUMN d)" using st(8) by (rule mset_eq_length)
  with c st(8) len show ?thesis
    by (intro exI [of _ counts]) (simp add: count_map_U64 ids_from_take_count sum_list_upt_take ids_from_length min.commute del: mset_map)
qed

theorem permutation_splits_witness:
  "build_frame (sample_env [3, 1, 2]) (sample_cfg (SequentialSplit (Counts [1, 2])) NoShuffle) ()
     = Some (Inr \<lparr>columns = [''row_id'', ''split_id''], meta = [(''base_version'', ''7'')],
         batches = [Inr [[U64 3, U64 0], [U64 1, U64 1], [U64 2, U64 1 :: nat cell]]]\<rparr>)
   \<and> to_counts (Counts [1, 2]) 3 = Some (Inr [1, 2])
   \<and> count (mset [U64 0, U64 1, U64 1 :: nat cell]) (U64 1) = min ([1, 2] ! 1) (3 - sum_list (take 1 [1, 2]))"
proof -
  let ?cfg = "sample_cfg (SequentialSplit (Counts [1, 2])) NoShuffle"
  let ?env = "sample_env [3, 1, 2] :: (unit, nat, nat) perm_env"
  let ?f = "\<lparr>columns = [''row_id'', ''split_id''], meta = [(''base_version'', ''7'')],
         batches = [Inr [[U64 3, U64 0], [U64 1, U64 1], [U64 2, U64 1 :: nat cell]]]\<rparr>"
  let ?scanned = "\<lparr>columns = [''_rowid''], meta = [], batches = [Inr [[U64 3], [U64 1], [U64 2]]]\<rparr>"
  have b: "build_frame ?env ?cfg () = Some (Inr ?f)" by code_simp
  have c: "complete ?f" by code_simp
  have t: "scan_table ?env () ()" by (simp add: scan_table_def sample_env_def sample_tables_def)
  have n: "count_rows (tables ?env) () (cfg_filter ?cfg) = Inr 3" by code_simp
  have q: "run_query (tables ?env) () (scan_query ?cfg) = Inr ?scanned" by code_simp
  have p: "position_sizes (cfg_split_strategy ?cfg) 3 = Some (Counts [1, 2])" by code_simp
  have d: "column SPLIT_ID_COLUMN ?f = [U64 0, U64 1, U64 1]" "length (frame_rows ?scanned) = 3"
    "to_counts (Counts [1, 2]) 3 = Some (Inr [1, 2])" by (code_simp, code_simp, code_simp)
  from permutation_splits [OF sample_env_laws b c t n q p] d b show ?thesis by auto
qed

end
