(* ===== verification/PermReader.thy ===== *)
theory PermReader
  imports PermBuilder
begin

text \<open>
  Reading through a permutation table (\<^verbatim>\<open>dataloader/permutation/reader.rs\<close>): the base table is pinned
  to the recorded version, the row ids of one split are read in table order within an offset and a
  limit, and the base rows are fetched by id and put back into the order of the ids. The tables are
  given by their query functions; the offset map a reader caches is part of its state.
\<close>

section \<open>State\<close>

text \<open>\<open>fetch_rows\<close> is the query for a list of row ids, with the row id column; \<open>take_by_offset\<close> and
  \<open>output_schema_of\<close> are the queries of the reader without a permutation.\<close>

record ('t, 'v) reader_ops = "('t, 'v) table_ops" +
  fetch_rows :: "'t \<Rightarrow> nat list \<Rightarrow> select \<Rightarrow> 'v frame result"
  take_by_offset :: "'t \<Rightarrow> nat list \<Rightarrow> select \<Rightarrow> 'v frame result"
  output_schema_of :: "'t \<Rightarrow> select \<Rightarrow> string list result"

record 't permutation_reader =
  base_table :: 't
  permutation_table :: "'t option"
  offset :: "nat option"
  limit :: "nat option"
  available_rows :: nat
  split :: nat
  offset_map :: "(nat \<rightharpoonup> nat) option"

text \<open>A record batch: its column names and rows.\<close>

type_synonym 'v batch = "string list \<times> 'v row list"

definition internal_error :: error where
  "internal_error = Lance ''Internal error: expected value''"

section \<open>Limits\<close>

definition u64_bound :: nat where "u64_bound = 2 ^ 64"

definition validate_limit_offset :: "nat option \<Rightarrow> nat option \<Rightarrow> nat \<Rightarrow> nat result" where
  "validate_limit_offset lm off avail =
     (case (lm, off) of
        (Some l, Some o') \<Rightarrow>
          if avail < wrap64 (o' + l)
          then Inl (InvalidInput ''Offset + limit is greater than the number of rows in the permutation table'')
          else Inr l
      | (None, Some o') \<Rightarrow>
          if avail < o'
          then Inl (InvalidInput ''Offset is greater than the number of rows in the permutation table'')
          else Inr (avail - o')
      | (Some l, None) \<Rightarrow>
          if avail < l
          then Inl (InvalidInput ''Limit is greater than the number of rows in the permutation table'')
          else Inr l
      | (None, None) \<Rightarrow> Inr avail)"

definition split_filter :: "nat \<Rightarrow> string" where
  "split_filter s = SPLIT_ID_COLUMN @ '' = '' @ show_nat s"

definition verify_limit_offset ::
  "('t, 'v) reader_ops \<Rightarrow> 't permutation_reader \<Rightarrow> nat option \<Rightarrow> nat option \<Rightarrow> nat result" where
  "verify_limit_offset ops r lm off =
     try_bind (case permutation_table r of
                 Some t \<Rightarrow> count_rows ops t (Some (split_filter (split r)))
               | None \<Rightarrow> count_rows ops (base_table r) None) (\<lambda>avail.
     validate_limit_offset lm off avail)"

definition with_offset :: "('t, 'v) reader_ops \<Rightarrow> 't permutation_reader \<Rightarrow> nat \<Rightarrow> 't permutation_reader result" where
  "with_offset ops r off =
     try_bind (verify_limit_offset ops r (limit r) (Some off)) (\<lambda>avail.
     Inr (r\<lparr>offset := Some off, available_rows := avail, offset_map := None\<rparr>))"

definition with_limit :: "('t, 'v) reader_ops \<Rightarrow> 't permutation_reader \<Rightarrow> nat \<Rightarrow> 't permutation_reader result" where
  "with_limit ops r lm =
     try_bind (verify_limit_offset ops r (Some lm) (offset r)) (\<lambda>avail.
     Inr (r\<lparr>available_rows := avail, limit := Some lm, offset_map := None\<rparr>))"

section \<open>Opening\<close>

definition pin_base_table :: "('t, 'v) reader_ops \<Rightarrow> 't \<Rightarrow> 't \<Rightarrow> 't result" where
  "pin_base_table ops base perm =
     try_bind (table_schema ops perm) (\<lambda>(cols, md).
     case map_of md BASE_VERSION_CONFIG_KEY of
       None \<Rightarrow> Inr base
     | Some raw \<Rightarrow>
         try_bind (ok_or (InvalidInput (''Permutation table has an unreadable '' @ BASE_VERSION_CONFIG_KEY @ '' of '' @ raw))
                     (parse_uint (u64_bound - 1) raw)) (\<lambda>v.
         checkout_branch_version ops base
           (case map_of md BASE_BRANCH_CONFIG_KEY of Some b \<Rightarrow> b | None \<Rightarrow> MAIN_BRANCH) (Some v)))"

definition validate_reader :: "('t, 'v) reader_ops \<Rightarrow> 't permutation_reader \<Rightarrow> unit result" where
  "validate_reader ops r =
     try_bind (case permutation_table r of
                 None \<Rightarrow> Inr ()
               | Some t \<Rightarrow> try_bind (table_schema ops t) (\<lambda>(cols, md).
                   if SRC_ROW_ID_COL \<notin> set cols
                   then Inl (InvalidInput ''Permutation table must contain a column named row_id'')
                   else if SPLIT_ID_COLUMN \<notin> set cols
                   then Inl (InvalidInput ''Permutation table must contain a column named split_id'')
                   else Inr ())) (\<lambda>_.
     try_bind (count_rows ops (case permutation_table r of Some t \<Rightarrow> t | None \<Rightarrow> base_table r) None) (\<lambda>avail.
     try_bind (validate_limit_offset (limit r) (offset r) avail) (\<lambda>_. Inr ())))"

definition inner_new :: "('t, 'v) reader_ops \<Rightarrow> 't \<Rightarrow> 't option \<Rightarrow> nat \<Rightarrow> 't permutation_reader result" where
  "inner_new ops base perm sp =
     try_bind (case perm of Some p \<Rightarrow> pin_base_table ops base p | None \<Rightarrow> Inr base) (\<lambda>base'.
     let r = \<lparr>base_table = base', permutation_table = perm, offset = None, limit = None,
              available_rows = 0, split = sp, offset_map = None\<rparr> in
     try_bind (validate_reader ops r) (\<lambda>_.
     try_bind (verify_limit_offset ops r None None) (\<lambda>avail.
     if avail = 0
     then Inl (InvalidInput ''No rows found in the permutation table for the given split'')
     else Inr (r\<lparr>available_rows := avail\<rparr>))))"

definition try_from_tables :: "('t, 'v) reader_ops \<Rightarrow> 't \<Rightarrow> 't \<Rightarrow> nat \<Rightarrow> 't permutation_reader result" where
  "try_from_tables ops base perm sp = inner_new ops base (Some perm) sp"

definition identity_reader :: "('t, 'v) reader_ops \<Rightarrow> 't \<Rightarrow> 't permutation_reader result" where
  "identity_reader ops base = inner_new ops base None 0"

section \<open>Loading rows\<close>

text \<open>The values of an unsigned 64-bit column.\<close>

definition u64_values :: "'v cell list \<Rightarrow> nat list result" where
  "u64_values cs = try_map (\<lambda>c. case c of U64 n \<Rightarrow> Inr n | Val _ \<Rightarrow> Inl internal_error) cs"

text \<open>The distinct ids in the order of their first occurrence.\<close>

definition unique_ids :: "nat list \<Rightarrow> nat list" where
  "unique_ids ids = rev (remdups (rev ids))"

definition is_sorted_already :: "nat list \<Rightarrow> bool" where
  "is_sorted_already xs = list_all (\<lambda>(expected, i). i = expected) (zip [0..<length xs] xs)"

fun has_row_id :: "select \<Rightarrow> bool result" where
  "has_row_id All = Inr False"
| "has_row_id (Columns cs) = Inr (ROW_ID \<in> set cs)"
| "has_row_id (Dynamic ps) =
     (case List.find (\<lambda>p. fst p = ROW_ID) ps of
        None \<Rightarrow> Inr False
      | Some (n, e) \<Rightarrow>
          if e = ROW_ID then Inr True
          else Inl (InvalidInput (''Dynamic column '' @ e @ '' cannot be used to select _rowid'')))"
| "has_row_id (SelectExpr ps) = Inr (list_ex (\<lambda>p. fst p = ROW_ID) ps)"

text \<open>The map from row id to position, a later row overriding an earlier one.\<close>

definition ordering :: "nat list \<Rightarrow> (nat \<rightharpoonup> nat)" where
  "ordering ids = map_of (rev (zip ids [0..<length ids]))"

definition drop_at :: "nat \<Rightarrow> 'a list \<Rightarrow> 'a list" where
  "drop_at i xs = take i xs @ drop (Suc i) xs"

text \<open>Putting a fetched batch into the order of the requested ids, and dropping the row id column unless it
  was asked for.\<close>

definition restore_order :: "bool \<Rightarrow> string list \<Rightarrow> 'v row list \<Rightarrow> nat list \<Rightarrow> 'v batch result" where
  "restore_order keep cols batch row_ids =
     (let idx = index_of ROW_ID cols in
      if length cols \<le> idx then Inl internal_error
      else try_bind (u64_values (map (\<lambda>r. r ! idx) batch)) (\<lambda>actual.
           try_bind (try_map (\<lambda>o'. ok_or internal_error (ordering actual o')) row_ids) (\<lambda>desired.
           let ordered = (if is_sorted_already desired then batch else map (\<lambda>i. batch ! i) desired)
           in Inr (if keep then (cols, ordered) else (drop_at idx cols, map (drop_at idx) ordered)))))"

definition load_batch :: "('t, 'v) reader_ops \<Rightarrow> 't \<Rightarrow> nat list \<Rightarrow> select \<Rightarrow> 'v batch result" where
  "load_batch ops base row_ids selection =
     try_bind (has_row_id selection) (\<lambda>keep.
     try_bind (fetch_rows ops base (unique_ids row_ids) selection) (\<lambda>data.
     try_bind (try_collect (batches data)) (\<lambda>bs.
     if bs = [] then Inl (InvalidInput ''Base table returned no batches'')
     else if length (concat bs) \<noteq> length (unique_ids row_ids)
     then Inl (InvalidInput ''Base table returned a different number of rows than the number of unique row IDs'')
     else restore_order keep (columns data) (concat bs) row_ids)))"

section \<open>Reading\<close>

definition split_query :: "'t permutation_reader \<Rightarrow> query_request" where
  "split_query r = \<lparr>q_select = Columns [SRC_ROW_ID_COL], q_filter = Some (split_filter (split r)),
                    q_offset = offset r, q_limit = limit r\<rparr>"

definition base_query :: "'t permutation_reader \<Rightarrow> query_request" where
  "base_query r = \<lparr>q_select = Columns [ROW_ID], q_filter = None, q_offset = offset r, q_limit = limit r\<rparr>"

definition first_column :: "'v row list \<Rightarrow> nat list result" where
  "first_column rows = u64_values (map hd rows)"

definition row_ids_to_batches :: "('t, 'v) reader_ops \<Rightarrow> 't \<Rightarrow> 'v row stream \<Rightarrow> select \<Rightarrow> 'v batch result list result" where
  "row_ids_to_batches ops base ids selection =
     (case map (\<lambda>b. try_bind b (\<lambda>rows. try_bind (first_column rows) (\<lambda>row_ids. load_batch ops base row_ids selection))) ids of
        [] \<Rightarrow> Inl (InvalidInput ''Permutation was empty'')
      | Inl e # rest \<Rightarrow> Inl e
      | Inr b # rest \<Rightarrow> Inr (Inr b # rest))"

definition read_permutation :: "('t, 'v) reader_ops \<Rightarrow> 't permutation_reader \<Rightarrow> select \<Rightarrow> 'v batch result list result" where
  "read_permutation ops r selection =
     try_bind (case permutation_table r of
                 Some t \<Rightarrow> run_query ops t (split_query r)
               | None \<Rightarrow> run_query ops (base_table r) (base_query r)) (\<lambda>f.
     row_ids_to_batches ops (base_table r) (batches f) selection)"

text \<open>Filling the map from offset to row id, batch by batch.\<close>

fun fill_offsets :: "'v row stream \<Rightarrow> nat \<Rightarrow> (nat \<rightharpoonup> nat) \<Rightarrow> (nat \<rightharpoonup> nat) result" where
  "fill_offsets [] idx_offset m = Inr m"
| "fill_offsets (Inl e # bs) idx_offset m = Inl e"
| "fill_offsets (Inr rows # bs) idx_offset m =
     try_bind (map_err (\<lambda>_. Panic ''primitive array'') (first_column rows)) (\<lambda>ids.
     fill_offsets bs (idx_offset + length rows)
       (m ++ map_of (rev (zip [idx_offset..<idx_offset + length ids] ids))))"

definition get_offset_map ::
  "('t, 'v) reader_ops \<Rightarrow> 't permutation_reader \<Rightarrow> 't \<Rightarrow> ((nat \<rightharpoonup> nat) \<times> 't permutation_reader) result" where
  "get_offset_map ops r perm =
     (case offset_map r of
        Some m \<Rightarrow> Inr (m, r)
      | None \<Rightarrow>
          try_bind (run_query ops perm (split_query r)) (\<lambda>f.
          try_bind (fill_offsets (batches f) 0 Map.empty) (\<lambda>m.
          Inr (m, r\<lparr>offset_map := Some m\<rparr>))))"

definition take_offsets ::
  "('t, 'v) reader_ops \<Rightarrow> 't permutation_reader \<Rightarrow> nat list \<Rightarrow> select \<Rightarrow> ('v batch \<times> 't permutation_reader) result" where
  "take_offsets ops r offsets selection =
     (if offsets = []
      then try_bind (output_schema_of ops (base_table r) selection) (\<lambda>cs. Inr ((cs, []), r))
      else case permutation_table r of
        Some perm \<Rightarrow>
          try_bind (get_offset_map ops r perm) (\<lambda>(m, r').
          try_bind (try_map (\<lambda>o'. ok_or internal_error (m o')) offsets) (\<lambda>row_ids.
          try_bind (load_batch ops (base_table r) row_ids selection) (\<lambda>b. Inr (b, r'))))
      | None \<Rightarrow>
          try_bind (take_by_offset ops (base_table r) offsets selection) (\<lambda>f.
          try_bind (try_collect (batches f)) (\<lambda>bs.
          if bs \<noteq> [] then Inr ((columns f, concat bs), r)
          else try_bind (output_schema_of ops (base_table r) selection) (\<lambda>cs.
               Inl (Arrow (if cs = [] then ''must either specify a row count or at least one column''
                           else ''number of columns must match number of fields in schema''))))))"

section \<open>Order of the loaded rows\<close>

lemma u64_values_iff: "u64_values cs = Inr ns \<longleftrightarrow> cs = map U64 ns"
  unfolding u64_values_def try_map_Inr_iff
  by (induction cs arbitrary: ns) (auto simp: list_all2_Cons1 Cons_eq_map_conv split: cell.splits)

lemma unique_ids_distinct: "distinct ids \<Longrightarrow> length (unique_ids ids) = length ids"
  by (simp add: unique_ids_def distinct_remdups_id)

lemma ordering_Some: "ordering ids x = Some i \<Longrightarrow> i < length ids \<and> ids ! i = x"
  unfolding ordering_def by (drule map_of_SomeD) (auto simp: in_set_zip)

lemma is_sorted_already_iff: "is_sorted_already xs \<longleftrightarrow> xs = [0..<length xs]"
proof -
  have "is_sorted_already xs \<longleftrightarrow> (\<forall>k < length xs. xs ! k = k)"
    by (simp add: is_sorted_already_def list_all_length)
  also have "\<dots> \<longleftrightarrow> xs = [0..<length xs]"
    by (auto intro: nth_equalityI) (metis add_0 nth_upt)
  finally show ?thesis .
qed

lemma restored_order:
  assumes len: "length batch = length (unique_ids ids)"
    and actual: "map (\<lambda>r. r ! idx) batch = map U64 actual"
    and desired: "try_map (\<lambda>x. ok_or e (ordering actual x)) ids = Inr desired"
  shows "map (\<lambda>r. r ! idx) (if is_sorted_already desired then batch else map (\<lambda>i. batch ! i) desired) = map U64 ids"
proof -
  from desired have d: "list_all2 (\<lambda>x i. ordering actual x = Some i) ids desired"
    by (simp add: try_map_Inr_iff)
  then have dl: "length desired = length ids" by (simp add: list_all2_lengthD)
  have dk: "desired ! k < length actual \<and> actual ! (desired ! k) = ids ! k" if "k < length ids" for k
    using list_all2_nthD [OF d that] ordering_Some by blast
  have al: "length actual = length batch" using actual by (metis length_map)
  show ?thesis
  proof (cases "is_sorted_already desired")
    case True
    then have id: "desired ! k = k" if "k < length ids" for k
      using that dl unfolding is_sorted_already_iff by (metis add_0 nth_upt)
    have "distinct ids"
    proof (rule distinct_conv_nth [THEN iffD2], intro allI impI)
      fix i j assume ij: "i < length ids" "j < length ids" "i \<noteq> j"
      have "ordering actual (ids ! i) = Some i" "ordering actual (ids ! j) = Some j"
        using list_all2_nthD [OF d] id ij by simp_all
      with ij(3) show "ids ! i \<noteq> ids ! j" by auto
    qed
    then have "length ids = length actual" using unique_ids_distinct al len by simp
    then have "ids = actual" using dk id by (intro nth_equalityI) auto
    with True actual show ?thesis by simp
  next
    case False
    have "batch ! (desired ! k) ! idx = U64 (ids ! k)" if "k < length ids" for k
      using dk [OF that] actual al by (metis length_map nth_map)
    then have "map (\<lambda>i. batch ! i ! idx) desired = map U64 ids"
      using dl by (intro nth_equalityI) auto
    with False show ?thesis by (simp add: comp_def)
  qed
qed

lemma restore_order_rows:
  assumes r: "restore_order keep cs batch ids = Inr (cols, rows)" and len: "length batch = length (unique_ids ids)"
  shows "\<exists>full. map (\<lambda>r. r ! index_of ROW_ID cs) full = map U64 ids \<and> set full \<subseteq> set batch
              \<and> (cols, rows) = (if keep then (cs, full)
                   else (drop_at (index_of ROW_ID cs) cs, map (drop_at (index_of ROW_ID cs)) full))"
proof -
  let ?idx = "index_of ROW_ID cs"
  have in_range: "\<not> length cs \<le> ?idx" using r by (auto simp: restore_order_def Let_def split: if_splits)
  from r obtain actual desired where b: "u64_values (map (\<lambda>r. r ! ?idx) batch) = Inr actual"
    "try_map (\<lambda>x. ok_or internal_error (ordering actual x)) ids = Inr desired"
    "(if keep then (cs, if is_sorted_already desired then batch else map (\<lambda>i. batch ! i) desired)
       else (drop_at ?idx cs, map (drop_at ?idx) (if is_sorted_already desired then batch else map (\<lambda>i. batch ! i) desired)))
     = (cols, rows)"
    unfolding restore_order_def Let_def if_not_P [OF in_range] try_bind_Inr_iff sum.inject by blast
  from b(1) have actual: "map (\<lambda>r. r ! ?idx) batch = map U64 actual" by (simp add: u64_values_iff)
  then have "length actual = length batch" by (metis length_map)
  with b(2) have "set desired \<subseteq> {..<length batch}"
    by (fastforce simp: try_map_Inr_iff list_all2_conv_all_nth in_set_conv_nth dest: ordering_Some)
  then have "set (if is_sorted_already desired then batch else map (\<lambda>i. batch ! i) desired) \<subseteq> set batch"
    by auto
  with restored_order [OF len actual b(2)] b(3) [symmetric] show ?thesis by blast
qed

lemma load_batch_rows:
  assumes "load_batch ops base ids selection = Inr (cols, rows)"
  obtains keep data bs full where "has_row_id selection = Inr keep"
    "fetch_rows ops base (unique_ids ids) selection = Inr data" "try_collect (batches data) = Inr bs"
    "map (\<lambda>r. r ! index_of ROW_ID (columns data)) full = map U64 ids" "set full \<subseteq> set (concat bs)"
    "(cols, rows) = (if keep then (columns data, full)
       else (drop_at (index_of ROW_ID (columns data)) (columns data), map (drop_at (index_of ROW_ID (columns data))) full))"
proof -
  from assms obtain keep data bs where b: "has_row_id selection = Inr keep"
    "fetch_rows ops base (unique_ids ids) selection = Inr data" "try_collect (batches data) = Inr bs"
    "(if bs = [] then Inl (InvalidInput ''Base table returned no batches'')
      else if length (concat bs) \<noteq> length (unique_ids ids)
      then Inl (InvalidInput ''Base table returned a different number of rows than the number of unique row IDs'')
      else restore_order keep (columns data) (concat bs) ids) = Inr (cols, rows)"
    unfolding load_batch_def try_bind_Inr_iff by blast
  then have c: "restore_order keep (columns data) (concat bs) ids = Inr (cols, rows)"
    "length (concat bs) = length (unique_ids ids)" by (auto split: if_splits)
  from restore_order_rows [OF c] obtain full where
    "map (\<lambda>r. r ! index_of ROW_ID (columns data)) full = map U64 ids" "set full \<subseteq> set (concat bs)"
    "(cols, rows) = (if keep then (columns data, full)
       else (drop_at (index_of ROW_ID (columns data)) (columns data), map (drop_at (index_of ROW_ID (columns data))) full))"
    by blast
  from that [OF b(1-3) this] show ?thesis .
qed

section \<open>The offset map\<close>

text \<open>The row ids a query delivers, in order, when all of its batches are readable.\<close>

definition frame_ids :: "'v frame \<Rightarrow> nat list result" where
  "frame_ids f = try_bind (try_collect (batches f)) (\<lambda>bs. try_bind (try_map first_column bs) (\<lambda>ids. Inr (concat ids)))"

lemma first_column_length: "first_column rows = Inr ids \<Longrightarrow> length ids = length rows"
  by (metis first_column_def length_map u64_values_iff)

lemma map_of_positions:
  "map_of (rev (zip [k..<k + length ids] ids)) x = (if k \<le> x \<and> x < k + length ids then Some (ids ! (x - k)) else None)"
proof -
  let ?z = "zip [k..<k + length ids] ids"
  have "distinct (map fst (rev ?z))" by (simp add: rev_map [symmetric])
  then have "map_of (rev ?z) = map_of ?z" by (intro map_of_inject_set [THEN iffD2]) (simp_all add: rev_map [symmetric])
  moreover have "map_of ?z x = (if k \<le> x \<and> x < k + length ids then Some (ids ! (x - k)) else None)"
  proof (cases "k \<le> x \<and> x < k + length ids")
    case True
    then have "map_of ?z ([k..<k + length ids] ! (x - k)) = Some (ids ! (x - k))"
      by (intro map_of_zip_nth) auto
    with True show ?thesis by simp
  next
    case False
    then have "x \<notin> fst ` set ?z" by (auto dest: set_zip_leftD)
    then have "map_of ?z x = None" by (simp only: map_of_eq_None_iff not_False_eq_True)
    with False show ?thesis by (simp only: if_False)
  qed
  ultimately show ?thesis by simp
qed

lemma map_add_segments:
  assumes "n = length xs"
  shows "(m ++ map_of (rev (zip [k..<k + length xs] xs))) ++
       (\<lambda>x. if k + n \<le> x \<and> x < k + n + length (concat yss) then Some (concat yss ! (x - (k + n))) else None)
     = m ++ (\<lambda>x. if k \<le> x \<and> x < k + length (concat (xs # yss)) then Some (concat (xs # yss) ! (x - k)) else None)"
    (is "?l = ?r")
proof
  fix x
  consider "x < k" | "k \<le> x" "x < k + length xs" | "k + length xs \<le> x" by linarith
  then show "?l x = ?r x"
  proof cases
    case 1
    then show ?thesis by (simp add: map_add_def map_of_positions assms)
  next
    case 2
    then have "x - k < length xs" by linarith
    with 2 show ?thesis by (simp add: map_add_def map_of_positions assms nth_append)
  next
    case 3
    then have "\<not> x - k < length xs" "x - k - length xs = x - (k + length xs)" "k \<le> x" by linarith+
    with 3 show ?thesis by (simp add: map_add_def map_of_positions assms nth_append)
  qed
qed

lemma fill_offsets_spec:
  "fill_offsets bs k m = Inr m' \<Longrightarrow>
     \<exists>batches idss. try_collect bs = Inr batches \<and> try_map first_column batches = Inr idss
       \<and> m' = m ++ (\<lambda>x. if k \<le> x \<and> x < k + length (concat idss) then Some (concat idss ! (x - k)) else None)"
proof (induction bs k m rule: fill_offsets.induct)
  case (1 k m)
  then show ?case by (auto simp: try_collect_def map_add_def fun_eq_iff)
next
  case (3 rows bs k m)
  from 3(2) obtain ids where ids: "first_column rows = Inr ids"
    "fill_offsets bs (k + length rows) (m ++ map_of (rev (zip [k..<k + length ids] ids))) = Inr m'"
    by (auto simp: try_bind_Inr_iff)
  have len: "length ids = length rows" using first_column_length [OF ids(1)] .
  from 3(1) [OF ids(2)] obtain bts idss where ih: "try_collect bs = Inr bts" "try_map first_column bts = Inr idss"
    "m' = (m ++ map_of (rev (zip [k..<k + length ids] ids))) ++
       (\<lambda>x. if k + length rows \<le> x \<and> x < k + length rows + length (concat idss)
            then Some (concat idss ! (x - (k + length rows))) else None)" by auto
  have "m' = m ++ (\<lambda>x. if k \<le> x \<and> x < k + length (concat (ids # idss))
                      then Some (concat (ids # idss) ! (x - k)) else None)"
    unfolding ih(3) by (rule map_add_segments [OF len [symmetric]])
  with ih(1,2) ids(1) show ?case by (auto simp: try_collect_def)
qed simp

lemma fill_offsets_nth:
  assumes "fill_offsets (batches f) 0 Map.empty = Inr m"
  shows "\<exists>ids. frame_ids f = Inr ids \<and> m = (\<lambda>x. if x < length ids then Some (ids ! x) else None)"
proof -
  obtain bts idss where "try_collect (batches f) = Inr bts" "try_map first_column bts = Inr idss"
    "m = Map.empty ++ (\<lambda>x. if 0 \<le> x \<and> x < 0 + length (concat idss) then Some (concat idss ! (x - 0)) else None)"
    using fill_offsets_spec [OF assms] by blast
  then show ?thesis by (intro exI [of _ "concat idss"]) (auto simp: frame_ids_def fun_eq_iff)
qed

text \<open>What the reader's cached map must be: nothing, or the ids its query delivers.\<close>

definition offset_map_ok :: "('t, 'v) reader_ops \<Rightarrow> 't permutation_reader \<Rightarrow> bool" where
  "offset_map_ok ops r =
     (case (permutation_table r, offset_map r) of
        (Some perm, Some m) \<Rightarrow> \<exists>f ids. run_query ops perm (split_query r) = Inr f \<and> frame_ids f = Inr ids
                              \<and> m = (\<lambda>x. if x < length ids then Some (ids ! x) else None)
      | _ \<Rightarrow> True)"

lemma get_offset_map_spec:
  assumes "offset_map_ok ops r" "permutation_table r = Some perm" "get_offset_map ops r perm = Inr (m, r')"
  shows "\<exists>f ids. run_query ops perm (split_query r) = Inr f \<and> frame_ids f = Inr ids
           \<and> m = (\<lambda>x. if x < length ids then Some (ids ! x) else None) \<and> r' = r\<lparr>offset_map := Some m\<rparr>"
proof (cases "offset_map r")
  case (Some m0)
  with assms show ?thesis by (auto simp: get_offset_map_def offset_map_ok_def)
next
  case None
  with assms(3) obtain f where "run_query ops perm (split_query r) = Inr f"
    "fill_offsets (batches f) 0 Map.empty = Inr m" "r' = r\<lparr>offset_map := Some m\<rparr>"
    by (auto simp: get_offset_map_def try_bind_Inr_iff)
  with fill_offsets_nth [of f m] show ?thesis by blast
qed

lemma split_query_map [simp]: "split_query (r\<lparr>offset_map := m\<rparr>) = split_query r"
  by (simp add: split_query_def)

section \<open>Windows\<close>

text \<open>What the reader relies on of a table: \<^const>\<open>count_rows\<close> gives the number of rows that match a filter, and queries
  with this filter and the same projection see these rows in one order, of which the offset and the limit
  cut out a part. The table stays as it is while the reader is in use.\<close>

definition window :: "nat option \<Rightarrow> nat option \<Rightarrow> 'a list \<Rightarrow> 'a list" where
  "window lm off xs =
     (let ys = (case off of None \<Rightarrow> xs | Some k \<Rightarrow> drop k xs)
      in case lm of None \<Rightarrow> ys | Some k \<Rightarrow> take k ys)"

definition reader_laws :: "('t, 'v) reader_ops \<Rightarrow> bool" where
  "reader_laws ops =
     (\<forall>t flt sel n. count_rows ops t flt = Inr n \<longrightarrow>
        (\<exists>all. length all = n \<and>
           (\<forall>q f ids. q_select q = sel \<and> q_filter q = flt \<and> run_query ops t q = Inr f \<and> frame_ids f = Inr ids \<longrightarrow>
              ids = window (q_limit q) (q_offset q) all)))"

text \<open>The row ids a reader reads through.\<close>

definition reader_query :: "('t, 'v) reader_ops \<Rightarrow> 't permutation_reader \<Rightarrow> 'v frame result" where
  "reader_query ops r =
     (case permutation_table r of
        Some t \<Rightarrow> run_query ops t (split_query r)
      | None \<Rightarrow> run_query ops (base_table r) (base_query r))"

text \<open>The invariant of a reader: its cached map is right, and its number of available rows is the number of ids it
  reads unless the sum of its offset and its limit overflows.\<close>

definition no_overflow :: "'t permutation_reader \<Rightarrow> bool" where
  "no_overflow r = (case (offset r, limit r) of (Some k, Some l) \<Rightarrow> k + l < u64_bound | _ \<Rightarrow> True)"

definition reader_inv :: "('t, 'v) reader_ops \<Rightarrow> 't permutation_reader \<Rightarrow> bool" where
  "reader_inv ops r =
     (offset_map_ok ops r
      \<and> (\<forall>f ids. no_overflow r \<and> reader_query ops r = Inr f \<and> frame_ids f = Inr ids \<longrightarrow> available_rows r = length ids))"

lemma window_length:
  assumes "validate_limit_offset lm off (length all) = Inr n"
    and "case (off, lm) of (Some k, Some l) \<Rightarrow> k + l < u64_bound | _ \<Rightarrow> True"
  shows "length (window lm off all) = n"
  using assms
  by (auto simp: validate_limit_offset_def window_def wrap64_def u64_bound_def split: option.splits if_splits)

lemma reader_lawsD:
  assumes "reader_laws ops" "count_rows ops t flt = Inr n"
  obtains all where "length all = n"
    "\<And>q f ids. q_select q = sel \<Longrightarrow> q_filter q = flt \<Longrightarrow> run_query ops t q = Inr f \<Longrightarrow> frame_ids f = Inr ids \<Longrightarrow>
       ids = window (q_limit q) (q_offset q) all"
  using assms unfolding reader_laws_def by (elim allE [where x = t] allE [where x = flt] allE [where x = sel] allE [where x = n]) auto

lemma verified_window:
  assumes laws: "reader_laws ops" and v: "verify_limit_offset ops r (limit r') (offset r') = Inr n"
    and same: "permutation_table r' = permutation_table r" "base_table r' = base_table r" "split r' = split r"
    and fits: "no_overflow r'"
    and q: "reader_query ops r' = Inr f" "frame_ids f = Inr ids"
  shows "n = length ids"
proof (cases "permutation_table r")
  case None
  with v obtain avail where a: "count_rows ops (base_table r) None = Inr avail"
    "validate_limit_offset (limit r') (offset r') avail = Inr n"
    by (auto simp: verify_limit_offset_def try_bind_Inr_iff)
  obtain all where all: "length all = avail"
    "\<And>q f ids. q_select q = Columns [ROW_ID] \<Longrightarrow> q_filter q = None \<Longrightarrow> run_query ops (base_table r) q = Inr f \<Longrightarrow> frame_ids f = Inr ids \<Longrightarrow>
       ids = window (q_limit q) (q_offset q) all" by (rule reader_lawsD [OF laws a(1), of "Columns [ROW_ID]"]) (rule that, assumption, simp)
  have "ids = window (limit r') (offset r') all"
    using all(2) [of "base_query r'" f ids] q None same by (simp add: reader_query_def base_query_def)
  moreover have "length (window (limit r') (offset r') all) = n"
    using window_length [OF _ fits [unfolded no_overflow_def], of all n] a(2) all(1) by simp
  ultimately show ?thesis by simp
next
  case (Some t)
  with v obtain avail where a: "count_rows ops t (Some (split_filter (split r))) = Inr avail"
    "validate_limit_offset (limit r') (offset r') avail = Inr n"
    by (auto simp: verify_limit_offset_def try_bind_Inr_iff)
  obtain all where all: "length all = avail"
    "\<And>q f ids. q_select q = Columns [SRC_ROW_ID_COL] \<Longrightarrow> q_filter q = Some (split_filter (split r)) \<Longrightarrow> run_query ops t q = Inr f \<Longrightarrow> frame_ids f = Inr ids \<Longrightarrow>
       ids = window (q_limit q) (q_offset q) all" by (rule reader_lawsD [OF laws a(1), of "Columns [SRC_ROW_ID_COL]"]) (rule that, assumption, simp)
  have "ids = window (limit r') (offset r') all"
    using all(2) [of "split_query r'" f ids] q Some same by (simp add: reader_query_def split_query_def)
  moreover have "length (window (limit r') (offset r') all) = n"
    using window_length [OF _ fits [unfolded no_overflow_def], of all n] a(2) all(1) by simp
  ultimately show ?thesis by simp
qed

lemma offset_map_ok_None: "offset_map r = None \<Longrightarrow> offset_map_ok ops r"
  by (simp add: offset_map_ok_def split: option.splits)

lemma inner_new_inv:
  assumes "reader_laws ops" "inner_new ops base perm sp = Inr r"
  shows "reader_inv ops r"
proof -
  from assms(2) obtain base' avail where n: "verify_limit_offset ops
      \<lparr>base_table = base', permutation_table = perm, offset = None, limit = None, available_rows = 0, split = sp, offset_map = None\<rparr>
      None None = Inr avail"
    "r = \<lparr>base_table = base', permutation_table = perm, offset = None, limit = None, available_rows = avail, split = sp, offset_map = None\<rparr>"
    by (auto simp: inner_new_def try_bind_Inr_iff Let_def split: if_splits)
  show ?thesis unfolding reader_inv_def
    using verified_window [OF assms(1), of _ r avail] n by (auto simp: offset_map_ok_None)
qed

lemma with_offset_inv:
  assumes laws: "reader_laws ops" and w: "with_offset ops r off = Inr r'"
  shows "reader_inv ops r'"
proof -
  from w obtain avail where n: "verify_limit_offset ops r (limit r) (Some off) = Inr avail"
    "r' = r\<lparr>offset := Some off, available_rows := avail, offset_map := None\<rparr>"
    by (auto simp: with_offset_def try_bind_Inr_iff)
  show ?thesis unfolding reader_inv_def
    using verified_window [OF laws, of r r' avail] n by (auto simp: offset_map_ok_None)
qed

lemma with_limit_inv:
  assumes laws: "reader_laws ops" and w: "with_limit ops r l = Inr r'"
  shows "reader_inv ops r'"
proof -
  from w obtain avail where n: "verify_limit_offset ops r (Some l) (offset r) = Inr avail"
    "r' = r\<lparr>available_rows := avail, limit := Some l, offset_map := None\<rparr>"
    by (auto simp: with_limit_def try_bind_Inr_iff)
  show ?thesis unfolding reader_inv_def
    using verified_window [OF laws, of r r' avail] n by (auto simp: offset_map_ok_None)
qed


lemma take_offsets_inv:
  assumes "reader_inv ops r" "take_offsets ops r offsets selection = Inr (b, r')"
  shows "reader_inv ops r'"
proof (cases "offsets = [] \<or> permutation_table r = None")
  case True
  with assms(2) have "r' = r"
    by (auto simp: take_offsets_def try_bind_Inr_iff split: option.splits if_splits)
  with assms(1) show ?thesis by simp
next
  case False
  then obtain perm where perm: "permutation_table r = Some perm" by auto
  with False assms(2) obtain m where m: "get_offset_map ops r perm = Inr (m, r')"
    by (auto simp: take_offsets_def try_bind_Inr_iff)
  have "offset_map_ok ops r" using assms(1) by (simp add: reader_inv_def)
  from get_offset_map_spec [OF this perm m] obtain f ids where g: "run_query ops perm (split_query r) = Inr f"
    "frame_ids f = Inr ids" "m = (\<lambda>x. if x < length ids then Some (ids ! x) else None)" "r' = r\<lparr>offset_map := Some m\<rparr>"
    by blast
  have "reader_query ops r' = reader_query ops r" using g(4) perm by (simp add: reader_query_def)
  moreover have "offset_map_ok ops r'" using g perm by (auto simp: offset_map_ok_def)
  ultimately show ?thesis using assms(1) unfolding reader_inv_def by (auto simp: g(4) no_overflow_def)
qed

text \<open>The life of a reader: it is opened, narrowed by offsets and limits, and read.\<close>

inductive reader_states :: "('t, 'v) reader_ops \<Rightarrow> 't permutation_reader \<Rightarrow> bool" for ops where
  opened: "inner_new ops base perm sp = Inr r \<Longrightarrow> reader_states ops r"
| offset_set: "reader_states ops r \<Longrightarrow> with_offset ops r off = Inr r' \<Longrightarrow> reader_states ops r'"
| limit_set: "reader_states ops r \<Longrightarrow> with_limit ops r l = Inr r' \<Longrightarrow> reader_states ops r'"
| taken: "reader_states ops r \<Longrightarrow> take_offsets ops r offsets selection = Inr (b, r') \<Longrightarrow> reader_states ops r'"

lemma reader_states_inv: "reader_states ops r \<Longrightarrow> reader_laws ops \<Longrightarrow> reader_inv ops r"
proof (induction rule: reader_states.induct)
  case (opened base perm sp r)
  then show ?case by (blast intro: inner_new_inv)
next
  case (offset_set r off r')
  then show ?case by (blast intro: with_offset_inv)
next
  case (limit_set r l r')
  then show ?case by (blast intro: with_limit_inv)
next
  case (taken r offsets selection b r')
  then show ?case by (blast intro: take_offsets_inv)
qed

section \<open>Fetching\<close>

text \<open>Rows fetched by id are the rows of the base table: one row for each id, whatever else is asked for.\<close>

definition fetch_laws ::
  "('t, 'v) reader_ops \<Rightarrow> 't \<Rightarrow> select \<Rightarrow> string list \<Rightarrow> (nat \<Rightarrow> 'v row) \<Rightarrow> bool" where
  "fetch_laws ops base selection cols row =
     (\<forall>ids f bs. fetch_rows ops base ids selection = Inr f \<and> try_collect (batches f) = Inr bs \<longrightarrow>
        columns f = cols
        \<and> (\<forall>r \<in> set (concat bs). \<forall>i. r ! index_of ROW_ID cols = U64 i \<longrightarrow> r = row i))"

definition delivered :: "bool \<Rightarrow> string list \<Rightarrow> 'v row \<Rightarrow> 'v row" where
  "delivered keep cols r = (if keep then r else drop_at (index_of ROW_ID cols) r)"

lemma load_batch_function:
  assumes laws: "fetch_laws ops base selection cols row"
    and l: "load_batch ops base ids selection = Inr (c, rows)" and k: "has_row_id selection = Inr keep"
  shows "rows = map (\<lambda>i. delivered keep cols (row i)) ids"
proof -
  obtain k' data bs full where k': "has_row_id selection = Inr k'" and
    b: "fetch_rows ops base (unique_ids ids) selection = Inr data"
    "try_collect (batches data) = Inr bs"
    "map (\<lambda>r. r ! index_of ROW_ID (columns data)) full = map U64 ids" "set full \<subseteq> set (concat bs)"
    "(c, rows) = (if k' then (columns data, full)
       else (drop_at (index_of ROW_ID (columns data)) (columns data), map (drop_at (index_of ROW_ID (columns data))) full))"
    by (rule load_batch_rows [OF l])
  from laws b(1,2) have c: "columns data = cols" and
    row: "\<And>r i. r \<in> set (concat bs) \<Longrightarrow> r ! index_of ROW_ID cols = U64 i \<Longrightarrow> r = row i"
    unfolding fetch_laws_def by blast+
  have "full ! j = row (ids ! j)" if "j < length ids" for j
    using b(3,4) that c by (intro row) (metis length_map nth_map nth_mem subsetD)+
  moreover have "length full = length ids" using b(3) by (metis length_map)
  ultimately have "full = map row ids" by (simp add: nth_equalityI)
  with b(5) c k k' show ?thesis by (simp add: delivered_def comp_def split: if_splits)
qed

lemma row_ids_to_batches_rows:
  assumes laws: "fetch_laws ops base selection cols row" and k: "has_row_id selection = Inr keep"
    and r: "row_ids_to_batches ops base ids selection = Inr (map Inr outs)"
  shows "\<exists>idss. try_bind (try_collect ids) (try_map first_column) = Inr idss
           \<and> concat (map snd outs) = map (\<lambda>i. delivered keep cols (row i)) (concat idss)"
proof -
  let ?f = "\<lambda>b. try_bind b (\<lambda>rows. try_bind (first_column rows) (\<lambda>row_ids. load_batch ops base row_ids selection))"
  have "map ?f ids = map Inr outs" using r
    by (auto simp: row_ids_to_batches_def split: list.splits sum.splits)
  then show ?thesis
  proof (induction ids arbitrary: outs)
    case Nil
    then show ?case by (auto simp: try_collect_def)
  next
    case (Cons b ids)
    from Cons.prems obtain out outs' where o: "?f b = Inr out" "map ?f ids = map Inr outs'" "outs = out # outs'"
      by (cases outs) auto
    from Cons.IH [OF o(2)] obtain idss where ih: "try_bind (try_collect ids) (try_map first_column) = Inr idss"
      "concat (map snd outs') = map (\<lambda>i. delivered keep cols (row i)) (concat idss)" by blast
    from o(1) obtain rows js where b: "b = Inr rows" "first_column rows = Inr js"
      "load_batch ops base js selection = Inr out" by (auto simp: try_bind_Inr_iff)
    have "snd out = map (\<lambda>i. delivered keep cols (row i)) js"
      using load_batch_function [OF laws _ k, of js "fst out" "snd out"] b(3) by simp
    with ih b(1,2) o(3) show ?case
      by (intro exI [of _ "js # idss"]) (auto simp: try_collect_def try_bind_Inr_iff)
  qed
qed


section \<open>A concrete store\<close>

text \<open>Table 1 is a permutation of table 0 that holds the rows 3, 1 and 2 in split 0 and the row 5 in split 1;
  rows are fetched in the order of their ids. A row is its id with its split.\<close>

definition sample_rows :: "nat \<Rightarrow> string option \<Rightarrow> (nat \<times> nat) list" where
  "sample_rows t flt =
     (if t = 0 then [(0, 0), (1, 0), (2, 0), (3, 0), (4, 0), (5, 0)]
      else case flt of
        None \<Rightarrow> [(3, 0), (1, 0), (2, 0), (5, 1)]
      | Some s \<Rightarrow> if s = split_filter 0 then [(3, 0), (1, 0), (2, 0)] else if s = split_filter 1 then [(5, 1)] else [])"

definition sample_cell :: "nat \<times> nat \<Rightarrow> string \<Rightarrow> nat cell" where
  "sample_cell r c = (if c = SPLIT_ID_COLUMN then U64 (snd r) else if c = ''x'' then Val (10 * fst r) else U64 (fst r))"

definition sample_query_rows :: "nat \<Rightarrow> query_request \<Rightarrow> nat row list" where
  "sample_query_rows t q =
     map (\<lambda>r. map (sample_cell r) (selected (q_select q))) (window (q_limit q) (q_offset q) (sample_rows t (q_filter q)))"

definition sample_reader :: "(nat, nat) reader_ops" where
  "sample_reader =
     \<lparr>snapshot_at_current_version = (\<lambda>_. Inr None), get_memwal_spec = (\<lambda>_. Inr False), version = (\<lambda>_. Inr 7),
      current_branch = (\<lambda>_. None), count_rows = (\<lambda>t flt. Inr (length (sample_rows t flt))),
      run_query = (\<lambda>t q. Inr \<lparr>columns = selected (q_select q), meta = [],
         batches = [Inr (take 2 (sample_query_rows t q)), Inr (drop 2 (sample_query_rows t q))]\<rparr>),
      scan_order_is_deterministic = (\<lambda>_. True),
      checkout_branch_version = (\<lambda>t b v. if v = Some 7 then Inr t else Inl (InvalidInput b)),
      table_schema = (\<lambda>t. Inr (if t = 1 then [SRC_ROW_ID_COL, SPLIT_ID_COLUMN] else [''x''],
                          if t = 1 then [(BASE_VERSION_CONFIG_KEY, ''7'')] else [])),
      create_table = (\<lambda>name f. Inr 1),
      fetch_rows = (\<lambda>t ids sel. let cols = (if sel = All then [''x''] else selected sel) @ [ROW_ID] in
         Inr \<lparr>columns = cols, meta = [], batches = [Inr (map (\<lambda>i. map (sample_cell (i, 0)) cols) (sort ids))]\<rparr>),
      take_by_offset = (\<lambda>t offs sel. Inr \<lparr>columns = [''x''], meta = [], batches = [Inr (map (\<lambda>i. [Val (10 * i)]) offs)]\<rparr>),
      output_schema_of = (\<lambda>t sel. Inr [''x''])\<rparr>"

fun cell_id :: "'v cell \<Rightarrow> nat" where
  "cell_id (U64 n) = n"
| "cell_id (Val v) = 0"

lemma two_batches_ids:
  assumes "frame_ids \<lparr>columns = cs, meta = md, batches = [Inr (take 2 rows), Inr (drop 2 rows)]\<rparr> = Inr ids"
  shows "ids = map (\<lambda>r. cell_id (hd r)) rows"
proof -
  from assms obtain a b where ab: "first_column (take 2 rows) = Inr a" "first_column (drop 2 rows) = Inr b" "ids = a @ b"
    by (auto simp: frame_ids_def try_collect_def try_bind_Inr_iff)
  have "xs = map (\<lambda>r. cell_id (hd r)) ys" if "first_column ys = Inr xs" for xs and ys :: "'a row list"
    using that by (auto simp: first_column_def u64_values_iff comp_def dest!: arg_cong [of "map hd ys" _ "map cell_id"])
  with ab have "ids = map (\<lambda>r. cell_id (hd r)) (take 2 rows @ drop 2 rows)" by (metis map_append)
  then show ?thesis by simp
qed

lemma window_map: "window lm off (map g xs) = map g (window lm off xs)"
  by (simp add: window_def Let_def take_map drop_map split: option.splits)

lemma sample_reader_laws: "reader_laws sample_reader"
  unfolding reader_laws_def
proof (intro allI impI)
  fix t flt sel n assume "count_rows sample_reader t flt = Inr n"
  let ?all = "map (\<lambda>r. cell_id (hd (map (sample_cell r) (selected sel)))) (sample_rows t flt)"
  have "ids = window (q_limit q) (q_offset q) ?all"
    if "q_select q = sel" "q_filter q = flt" "run_query sample_reader t q = Inr f" "frame_ids f = Inr ids" for q f ids
    using that two_batches_ids by (fastforce simp: sample_reader_def sample_query_rows_def window_map comp_def)
  moreover have "length ?all = n"
    using \<open>count_rows sample_reader t flt = Inr n\<close> by (simp add: sample_reader_def)
  ultimately show "\<exists>all. length all = n \<and> (\<forall>q f ids. q_select q = sel \<and> q_filter q = flt \<and> run_query sample_reader t q = Inr f
      \<and> frame_ids f = Inr ids \<longrightarrow> ids = window (q_limit q) (q_offset q) all)" by blast
qed

lemma sample_fetch_laws: "fetch_laws sample_reader t All [''x'', ROW_ID] (\<lambda>i. [Val (10 * i), U64 i])"
  by (auto simp: fetch_laws_def sample_reader_def sample_cell_def try_collect_def index_of_def perm_names)

definition sample_state :: "nat permutation_reader" where
  "sample_state = \<lparr>base_table = 0, permutation_table = Some 1, offset = Some 1, limit = None,
                   available_rows = 2, split = 0, offset_map = None\<rparr>"

lemma sample_state_reachable: "reader_states sample_reader sample_state"
proof -
  have "show_nat 7 = ''7''" by code_simp
  then have "parse_uint (u64_bound - 1) ''7'' = Some 7"
    using parse_uint_show_nat [of 7 "u64_bound - 1"] by (simp add: u64_bound_def)
  then have "inner_new sample_reader 0 (Some 1) 0 = Inr (sample_state\<lparr>offset := None, available_rows := 3\<rparr>)"
    by (simp add: inner_new_def pin_base_table_def validate_reader_def verify_limit_offset_def
        validate_limit_offset_def sample_reader_def sample_rows_def sample_state_def)
  moreover have "with_offset sample_reader (sample_state\<lparr>offset := None, available_rows := 3\<rparr>) 1 = Inr sample_state"
    by (simp add: with_offset_def verify_limit_offset_def validate_limit_offset_def sample_reader_def
        sample_rows_def sample_state_def)
  ultimately show ?thesis
    by (auto simp: u64_bound_def sample_state_def intro: reader_states.opened reader_states.offset_set)
qed

text \<open>The sum of an offset and a limit wraps around: a reader with a limit accepts an offset far beyond its rows
  and announces rows that it does not have.\<close>

lemma limit_overflow:
  "\<exists>r f. with_offset sample_reader (sample_state\<lparr>offset := None, limit := Some 2\<rparr>) (2 ^ 64 - 1) = Inr r
     \<and> available_rows r = 2 \<and> reader_query sample_reader r = Inr f \<and> frame_ids f = Inr []"
  by (simp add: with_offset_def verify_limit_offset_def validate_limit_offset_def sample_state_def sample_reader_def
      sample_query_rows_def sample_rows_def wrap64_def reader_query_def split_query_def window_def Let_def try_bind_def
      frame_ids_def try_collect_def first_column_def u64_values_def)

section \<open>Properties\<close>

text \<open>
  C7 (reader state). In every state a reader can get into, its cached offset map, when present, lists exactly the row ids
  its query delivers, and its number of available rows is the number of these ids unless the sum of its
  offset and its limit overflows 64 bits, which the code does not check.
\<close>
theorem reader_invariant:
  assumes "reader_laws ops" and "reader_states ops r"
    and "reader_query ops r = Inr f" and "frame_ids f = Inr ids"
  shows "((case (offset r, limit r) of (Some k, Some l) \<Rightarrow> k + l < 2 ^ 64 | _ \<Rightarrow> True) \<longrightarrow>
            available_rows r = length ids)
         \<and> (\<forall>perm m. permutation_table r = Some perm \<and> offset_map r = Some m \<longrightarrow>
              m = (\<lambda>x. if x < length ids then Some (ids ! x) else None))"
proof -
  have inv: "reader_inv ops r" using assms(1,2) by (simp add: reader_states_inv)
  then have "no_overflow r \<longrightarrow> available_rows r = length ids" using assms(3,4) by (simp add: reader_inv_def)
  moreover have "m = (\<lambda>x. if x < length ids then Some (ids ! x) else None)"
    if "permutation_table r = Some perm" "offset_map r = Some m" for perm m
    using inv that assms(3,4) by (auto simp: reader_inv_def offset_map_ok_def reader_query_def)
  ultimately show ?thesis unfolding no_overflow_def u64_bound_def by blast
qed

theorem reader_invariant_witness:
  "reader_states sample_reader sample_state
   \<and> (\<exists>f. reader_query sample_reader sample_state = Inr f \<and> frame_ids f = Inr [1, 2])
   \<and> available_rows sample_state = length [1, 2::nat]"
proof -
  have "\<exists>f. reader_query sample_reader sample_state = Inr f \<and> frame_ids f = Inr [1, 2]"
    by (simp add: reader_query_def sample_state_def split_query_def sample_reader_def sample_query_rows_def sample_rows_def
        window_def selected_def sample_cell_def perm_names frame_ids_def try_collect_def first_column_def u64_values_def)
  then obtain f where "reader_query sample_reader sample_state = Inr f" "frame_ids f = Inr [1, 2]" by blast
  with reader_invariant [OF sample_reader_laws sample_state_reachable this] sample_state_reachable
  show ?thesis by (auto simp: sample_state_def)
qed

text \<open>
  C2 (taking rows). Taking rows by offset delivers the rows that reading the whole permutation delivers at these
  positions, and only for positions that exist; these are the positions below the number of available
  rows unless the sum of the reader's offset and limit overflows 64 bits.
\<close>
theorem take_reads_positions:
  assumes "reader_laws ops" and "reader_states ops r" and "permutation_table r = Some perm"
    and "fetch_laws ops (base_table r) selection cols row"
    and "read_permutation ops r selection = Inr (map Inr outs)"
    and "take_offsets ops r offsets selection = Inr ((c, rows), r')" and "offsets \<noteq> []"
  shows "rows = map (\<lambda>k. concat (map snd outs) ! k) offsets
         \<and> list_all (\<lambda>k. k < length (concat (map snd outs))) offsets
         \<and> ((case (offset r, limit r) of (Some k, Some l) \<Rightarrow> k + l < 2 ^ 64 | _ \<Rightarrow> True) \<longrightarrow>
              length (concat (map snd outs)) = available_rows r)"
proof -
  have inv: "reader_inv ops r" using assms(1,2) by (simp add: reader_states_inv)
  from assms(3,6,7) obtain m row_ids where t: "get_offset_map ops r perm = Inr (m, r')"
    "try_map (\<lambda>k. ok_or internal_error (m k)) offsets = Inr row_ids"
    "load_batch ops (base_table r) row_ids selection = Inr (c, rows)"
    by (auto simp: take_offsets_def try_bind_Inr_iff)
  have "offset_map_ok ops r" using inv by (simp add: reader_inv_def)
  from get_offset_map_spec [OF this assms(3) t(1)] obtain f ids where f: "run_query ops perm (split_query r) = Inr f"
    "frame_ids f = Inr ids" "m = (\<lambda>x. if x < length ids then Some (ids ! x) else None)" by blast
  obtain keep where keep: "has_row_id selection = Inr keep" using t(3) by (elim load_batch_rows)
  have "row_ids_to_batches ops (base_table r) (batches f) selection = Inr (map Inr outs)"
    using assms(3,5) f(1) by (simp add: read_permutation_def)
  from row_ids_to_batches_rows [OF assms(4) keep this] f(2) have
    all: "concat (map snd outs) = map (\<lambda>i. delivered keep cols (row i)) ids"
    by (auto simp: frame_ids_def try_bind_Inr_iff)
  have "no_overflow r \<longrightarrow> available_rows r = length ids"
    using inv f(1,2) assms(3) by (simp add: reader_inv_def reader_query_def)
  then have len: "no_overflow r \<longrightarrow> length (concat (map snd outs)) = available_rows r" using all by simp
  from t(2) f(3) have o: "list_all2 (\<lambda>k i. k < length ids \<and> i = ids ! k) offsets row_ids"
    by (auto simp: try_map_Inr_iff elim!: list_all2_mono split: if_splits)
  then have "list_all (\<lambda>k. k < length ids) offsets" "row_ids = map (\<lambda>k. ids ! k) offsets"
    by (auto simp: list_all2_conv_all_nth list_all_length intro: nth_equalityI)
  with load_batch_function [OF assms(4) t(3) keep] all have
    "rows = map (\<lambda>k. concat (map snd outs) ! k) offsets" "list_all (\<lambda>k. k < length (concat (map snd outs))) offsets"
    by (auto simp: list_all_iff)
  with len show ?thesis unfolding no_overflow_def u64_bound_def by blast
qed

theorem take_reads_positions_witness:
  "(\<exists>r'. take_offsets sample_reader sample_state [1, 0] All = Inr (([''x''], [[Val 20], [Val 10]]), r'))
   \<and> read_permutation sample_reader sample_state All = Inr (map Inr [([''x''], [[Val 10], [Val 20]]), ([''x''], [])])
   \<and> [[Val 20], [Val (10::nat)]] = map (\<lambda>k. concat (map snd [([''x''], [[Val 10], [Val 20]]), ([''x''], [])]) ! k) [1, 0 :: nat]"
proof -
  have "case take_offsets sample_reader sample_state [1, 0] All of Inl e \<Rightarrow> False
        | Inr (b, r') \<Rightarrow> b = ([''x''], [[Val 20], [Val 10]])" by code_simp
  then obtain r' where
    t: "take_offsets sample_reader sample_state [1, 0] All = Inr (([''x''], [[Val 20], [Val 10]]), r')"
    by (auto split: sum.splits)
  have r: "read_permutation sample_reader sample_state All = Inr (map Inr [([''x''], [[Val 10], [Val 20]]), ([''x''], [])])"
    by code_simp
  have p: "permutation_table sample_state = Some 1" "base_table sample_state = 0" by (simp_all add: sample_state_def)
  from take_reads_positions [OF sample_reader_laws sample_state_reachable p(1) sample_fetch_laws r t] t r
  show ?thesis by auto
qed

text \<open>
  C26 (recorded version). Opening a reader on a table with the schema of a built permutation pins the base table to the
  branch and version the permutation was scanned at.
\<close>
theorem reader_pins_build_version:
  assumes "build_frame env cfg table0 = Some (Inr f)"
    and "table_schema ops perm = Inr (columns f, meta f)"
  shows "\<exists>table v. scan_table env table0 table \<and> version (tables env) table = Inr v
           \<and> (v < u64_bound \<longrightarrow> pin_base_table ops base perm
                = checkout_branch_version ops base
                    (case current_branch (tables env) table of Some b \<Rightarrow> b | None \<Rightarrow> MAIN_BRANCH) (Some v))"
proof -
  obtain table v metadata where st: "scan_table env table0 table" "version (tables env) table = Inr v"
    "permutation_metadata env v (current_branch (tables env) table) (cfg_split_names cfg) = Inr metadata"
    "meta f = metadata"
    using build_frame_stages [OF assms(1)] by (metis frame.select_convs(2) frame.surjective frame.update_convs(2))
  from st(3) obtain names where md: "metadata = (BASE_VERSION_CONFIG_KEY, show_nat v)
      # (case current_branch (tables env) table of None \<Rightarrow> [] | Some b \<Rightarrow> [(BASE_BRANCH_CONFIG_KEY, b)]) @ names"
    "BASE_BRANCH_CONFIG_KEY \<notin> fst ` set names"
    by (auto simp: permutation_metadata_def try_bind_Inr_iff perm_names split: option.splits)
  then have "map_of metadata BASE_VERSION_CONFIG_KEY = Some (show_nat v)"
    "map_of metadata BASE_BRANCH_CONFIG_KEY = current_branch (tables env) table"
    by (auto simp: perm_names map_of_eq_None_iff split: option.splits)
  with assms(2) st show ?thesis
    by (intro exI [of _ table] exI [of _ v]) (auto simp: pin_base_table_def parse_uint_show_nat)
qed


theorem reader_pins_build_version_witness:
  "build_frame (sample_env [3, 1, 2]) (sample_cfg (SequentialSplit (Counts [1, 2])) NoShuffle) ()
     = Some (Inr \<lparr>columns = [''row_id'', ''split_id''], meta = [(''base_version'', ''7'')],
         batches = [Inr [[U64 3, U64 0], [U64 1, U64 1], [U64 2, U64 1 :: nat cell]]]\<rparr>)
   \<and> table_schema sample_reader 1 = Inr ([''row_id'', ''split_id''], [(''base_version'', ''7'')])
   \<and> pin_base_table sample_reader 0 1 = checkout_branch_version sample_reader 0 MAIN_BRANCH (Some 7)"
proof -
  let ?f = "\<lparr>columns = [''row_id'', ''split_id''], meta = [(''base_version'', ''7'')],
         batches = [Inr [[U64 3, U64 0], [U64 1, U64 1], [U64 2, U64 1 :: nat cell]]]\<rparr>"
  have b: "build_frame (sample_env [3, 1, 2]) (sample_cfg (SequentialSplit (Counts [1, 2])) NoShuffle) () = Some (Inr ?f)"
    by code_simp
  have s: "table_schema sample_reader 1 = Inr (columns ?f, meta ?f)"
    by (simp add: sample_reader_def perm_names)
  obtain v where "version (tables (sample_env [3, 1, 2] :: (unit, nat, nat) perm_env)) () = Inr v"
    "v < u64_bound \<longrightarrow> pin_base_table sample_reader 0 1 = checkout_branch_version sample_reader 0
       (case current_branch (tables (sample_env [3, 1, 2] :: (unit, nat, nat) perm_env)) () of Some b \<Rightarrow> b | None \<Rightarrow> MAIN_BRANCH) (Some v)"
    using reader_pins_build_version [OF b s, of 0] by auto
  then have "pin_base_table sample_reader 0 1 = checkout_branch_version sample_reader 0 MAIN_BRANCH (Some 7)"
    by (simp add: sample_env_def sample_tables_def u64_bound_def)
  with b s show ?thesis by simp
qed

end
