(* ===== verification/BgCache.thy ===== *)
theory BgCache
  imports Prelude
begin

text \<open>
  The cache that refreshes its value in the background (\<^verbatim>\<open>utils/background_cache.rs\<close>). Everything a call
  does under the lock is one atomic step on the shared state, with its own reading of the clock. A fetch is a future: an entry of a list that
  holds the generation it was started in and, once it is done, its outcome; the task spawned with it
  stays in a list until it has run. The clock is an argument of the steps; the difference of two
  instants saturates at zero, as \<^verbatim>\<open>Instant::duration_since\<close> does. The generation counter is a natural
  number: it would wrap after \<open>2 ^ 64\<close> invalidations.
\<close>

section \<open>State\<close>

datatype 'v cstate = Empty | Current 'v nat | Refreshing "('v \<times> nat) option" nat

record ('v, 'e) fetch =
  started_in :: nat
  outcome :: "('e + 'v) option"

record ('v, 'e) bg_cache =
  ttl :: nat
  refresh_window :: nat
  cstate :: "'v cstate"
  generation :: nat
  futures :: "('v, 'e) fetch list"
  tasks :: "nat list"

datatype 'v action = Return 'v | Wait nat

text \<open>Where a call of \<^verbatim>\<open>get\<close> stands: before its first lock region, between the two, or done with both.\<close>

datatype 'v cache_call = FastPath | SlowPath | Answered "'v action"

definition fresh_value :: "nat \<Rightarrow> nat \<Rightarrow> nat \<Rightarrow> 'v cstate \<Rightarrow> 'v option" where
  "fresh_value now l w s =
     (let fresh_threshold = l - w in
      case s of
        Current v cached_at \<Rightarrow> if now - cached_at < fresh_threshold then Some v else None
      | Refreshing (Some (v, cached_at)) f \<Rightarrow> if now - cached_at < fresh_threshold then Some v else None
      | _ \<Rightarrow> None)"

section \<open>Operations\<close>

definition cache_new :: "nat \<Rightarrow> nat \<Rightarrow> ('v, 'e) bg_cache result" where
  "cache_new l w =
     (if \<not> w < l
      then Inl (Panic (''refresh_window ('' @ show_nat w @ '') must be less than ttl ('' @ show_nat l @ '')''))
      else Inr \<lparr>ttl = l, refresh_window = w, cstate = Empty, generation = 0, futures = [], tasks = []\<rparr>)"

definition cache_try_get :: "nat \<Rightarrow> ('v, 'e) bg_cache \<Rightarrow> 'v option" where
  "cache_try_get now c = fresh_value now (ttl c) (refresh_window c) (cstate c)"

definition cache_seed :: "nat \<Rightarrow> 'v \<Rightarrow> ('v, 'e) bg_cache \<Rightarrow> ('v, 'e) bg_cache" where
  "cache_seed now v c = c\<lparr>cstate := Current v now\<rparr>"

definition cache_invalidate :: "('v, 'e) bg_cache \<Rightarrow> ('v, 'e) bg_cache" where
  "cache_invalidate c = c\<lparr>cstate := Empty, generation := generation c + 1\<rparr>"

text \<open>A new future, the task that drives it, and the state that names it.\<close>

definition start_fetch :: "('v \<times> nat) option \<Rightarrow> ('v, 'e) bg_cache \<Rightarrow> nat \<times> ('v, 'e) bg_cache" where
  "start_fetch previous c =
     (let f = length (futures c) in
      (f, c\<lparr>futures := futures c @ [\<lparr>started_in = generation c, outcome = None\<rparr>],
            tasks := tasks c @ [f],
            cstate := Refreshing previous f\<rparr>))"

definition restore :: "('v \<times> nat) option \<Rightarrow> 'v cstate" where
  "restore previous = (case previous of Some (v, t) \<Rightarrow> Current v t | None \<Rightarrow> Empty)"

function determine_action :: "nat \<Rightarrow> ('v, 'e) bg_cache \<Rightarrow> 'v action \<times> ('v, 'e) bg_cache" where
  "determine_action now c =
     (case cstate c of
        Empty \<Rightarrow> (let (f, c') = start_fetch None c in (Wait f, c'))
      | Current v cached_at \<Rightarrow>
          (let elapsed = now - cached_at in
           if elapsed < ttl c - refresh_window c then (Return v, c)
           else if elapsed < ttl c then (let (f, c') = start_fetch (Some (v, cached_at)) c in (Return v, c'))
           else (let (f, c') = start_fetch (Some (v, cached_at)) c in (Wait f, c')))
      | Refreshing previous f \<Rightarrow>
          (case outcome (futures c ! f) of
             Some (Inr v) \<Rightarrow> determine_action now (c\<lparr>cstate := Current v now\<rparr>)
           | Some (Inl e) \<Rightarrow> determine_action now (c\<lparr>cstate := restore previous\<rparr>)
           | None \<Rightarrow>
               (case previous of
                  Some (v, cached_at) \<Rightarrow> if now - cached_at < ttl c then (Return v, c) else (Wait f, c)
                | None \<Rightarrow> (Wait f, c))))"
  by pat_completeness auto
termination
  by (relation "measure (\<lambda>(now, c). case cstate c of Refreshing p f \<Rightarrow> 1 | _ \<Rightarrow> 0)")
    (auto simp: restore_def split: option.splits)

declare determine_action.simps [simp del]

text \<open>A call takes the lock twice; any other step may come in between.\<close>

fun cache_get :: "nat \<Rightarrow> 'v cache_call \<Rightarrow> ('v, 'e) bg_cache \<Rightarrow> 'v cache_call \<times> ('v, 'e) bg_cache" where
  "cache_get now FastPath c =
     (case fresh_value now (ttl c) (refresh_window c) (cstate c) of
        Some v \<Rightarrow> (Answered (Return v), c)
      | None \<Rightarrow> (SlowPath, c))"
| "cache_get now SlowPath c = (let (action, c') = determine_action now c in (Answered action, c'))"
| "cache_get now (Answered action) c = (Answered action, c)"

text \<open>The end of a fetch, and the task spawned with it: it runs once the future is done, and writes only when no
  invalidation has happened since the fetch was started.\<close>

definition complete_fetch :: "nat \<Rightarrow> 'e + 'v \<Rightarrow> ('v, 'e) bg_cache \<Rightarrow> ('v, 'e) bg_cache" where
  "complete_fetch f r c = c\<lparr>futures := (futures c)[f := (futures c ! f)\<lparr>outcome := Some r\<rparr>]\<rparr>"

definition run_task :: "nat \<Rightarrow> nat \<Rightarrow> ('v, 'e) bg_cache \<Rightarrow> ('v, 'e) bg_cache" where
  "run_task now f c =
     (let c' = c\<lparr>tasks := remove1 f (tasks c)\<rparr> in
      case outcome (futures c ! f) of
        None \<Rightarrow> c
      | Some r \<Rightarrow>
          if generation c \<noteq> started_in (futures c ! f) then c'
          else case r of
            Inr v \<Rightarrow> c'\<lparr>cstate := Current v now\<rparr>
          | Inl e \<Rightarrow> c'\<lparr>cstate := restore (case cstate c of Refreshing previous g \<Rightarrow> previous | _ \<Rightarrow> None)\<rparr>)"

section \<open>Runs\<close>

text \<open>Interleavings of any number of callers, fetches and tasks. \<open>S\<close> records the seeded values with the
  generation they were seeded in.\<close>

inductive cache_run :: "(nat \<times> 'v) set \<Rightarrow> ('v, 'e) bg_cache \<Rightarrow> bool" where
  run_new: "cache_new l w = Inr c \<Longrightarrow> cache_run {} c"
| run_seed: "cache_run S c \<Longrightarrow> cache_run (insert (generation c, v) S) (cache_seed now v c)"
| run_invalidate: "cache_run S c \<Longrightarrow> cache_run S (cache_invalidate c)"
| run_get: "cache_run S c \<Longrightarrow> cache_get now p c = (p', c') \<Longrightarrow> cache_run S c'"
| run_complete: "cache_run S c \<Longrightarrow> f < length (futures c) \<Longrightarrow> outcome (futures c ! f) = None \<Longrightarrow>
     cache_run S (complete_fetch f r c)"
| run_spawned: "cache_run S c \<Longrightarrow> f \<in> set (tasks c) \<Longrightarrow> cache_run S (run_task now f c)"

text \<open>Where a value may come from: a seed or a successful fetch of the current generation.\<close>

definition current_source :: "(nat \<times> 'v) set \<Rightarrow> ('v, 'e) bg_cache \<Rightarrow> 'v \<Rightarrow> bool" where
  "current_source S c v =
     ((generation c, v) \<in> S
      \<or> (\<exists>f \<in> set (futures c). started_in f = generation c \<and> outcome f = Some (Inr v)))"

definition cache_inv :: "(nat \<times> 'v) set \<Rightarrow> ('v, 'e) bg_cache \<Rightarrow> bool" where
  "cache_inv S c =
     ((case cstate c of
         Empty \<Rightarrow> True
       | Current v t \<Rightarrow> current_source S c v
       | Refreshing p f \<Rightarrow> f < length (futures c) \<and> started_in (futures c ! f) = generation c
           \<and> (case p of Some (v, t) \<Rightarrow> current_source S c v | None \<Rightarrow> True))
      \<and> (\<forall>f \<in> set (tasks c). f < length (futures c))
      \<and> (\<forall>f \<in> set (futures c). started_in f \<le> generation c))"

lemma current_source_state [simp]: "current_source S (c\<lparr>cstate := s\<rparr>) v = current_source S c v"
  and current_source_tasks [simp]: "current_source S (c\<lparr>tasks := ts\<rparr>) v = current_source S c v"
  by (simp_all add: current_source_def)

lemma start_fetch_inv:
  assumes "cache_inv S c" "case p of Some (v, t) \<Rightarrow> current_source S c v | None \<Rightarrow> True" "start_fetch p c = (f, c')"
  shows "cache_inv S c' \<and> f < length (futures c') \<and> started_in (futures c' ! f) = generation c'
         \<and> generation c' = generation c"
  using assms by (auto simp: start_fetch_def Let_def cache_inv_def current_source_def less_Suc_eq
      split: option.splits)

lemma restore_inv: "cache_inv S c \<Longrightarrow> cstate c = Refreshing p f \<Longrightarrow> cache_inv S (c\<lparr>cstate := restore p\<rparr>)"
  by (auto simp: cache_inv_def restore_def split: option.splits)

lemma current_inv:
  "cache_inv S c \<Longrightarrow> f < length (futures c) \<Longrightarrow> started_in (futures c ! f) = generation c \<Longrightarrow>
   outcome (futures c ! f) = Some (Inr v) \<Longrightarrow> cache_inv S (c\<lparr>cstate := Current v now\<rparr>)"
  by (auto simp: cache_inv_def current_source_def intro: nth_mem bexI [of _ "futures c ! f"])

text \<open>A call keeps the invariant, and what it returns or waits for belongs to the current generation.\<close>

lemma determine_action_inv:
  assumes "cache_inv S c" "determine_action now c = (a, c')"
  shows "cache_inv S c' \<and> generation c' = generation c
         \<and> (case a of Return v \<Rightarrow> current_source S c' v
            | Wait f \<Rightarrow> f < length (futures c') \<and> started_in (futures c' ! f) = generation c')"
  using assms
proof (induction now c arbitrary: a c' rule: determine_action.induct)
  case (1 now c)
  note unfold = 1(4) [unfolded determine_action.simps [of now c]]
  show ?case
  proof (cases "cstate c")
    case Empty
    with 1(3) unfold start_fetch_inv [of S c None] show ?thesis by (auto simp: Let_def split: prod.splits)
  next
    case (Current v t)
    then have src: "current_source S c v" using 1(3) by (simp add: cache_inv_def)
    with start_fetch_inv [of S c "Some (v, t)"] 1(3)
    have sf: "cache_inv S d \<and> f < length (futures d) \<and> started_in (futures d ! f) = generation d
         \<and> generation d = generation c \<and> current_source S d v" if "start_fetch (Some (v, t)) c = (f, d)" for f d
      using that by (auto simp: start_fetch_def Let_def current_source_def)
    from Current src sf 1(3) unfold show ?thesis
      by (auto simp: Let_def split: prod.splits if_splits)
  next
    case (Refreshing p f)
    then have f: "f < length (futures c)" "started_in (futures c ! f) = generation c" using 1(3)
      by (auto simp: cache_inv_def)
    show ?thesis
    proof (cases "outcome (futures c ! f)")
      case None
      with Refreshing f 1(3) unfold show ?thesis
        by (auto simp: cache_inv_def split: option.splits if_splits)
    next
      case (Some r)
      show ?thesis
      proof (cases r)
        case (Inl e)
        with 1(1) [OF Refreshing Some, of e a c'] restore_inv [OF 1(3) Refreshing] unfold Refreshing Some
        show ?thesis by simp
      next
        case (Inr v)
        with 1(2) [OF Refreshing Some, of v a c'] current_inv [OF 1(3) f, of v now] unfold Refreshing Some
        show ?thesis by simp
      qed
    qed
  qed
qed


lemma run_task_inv:
  assumes inv: "cache_inv S c" and f: "f \<in> set (tasks c)"
  shows "cache_inv S (run_task now f c)"
proof -
  let ?c = "c\<lparr>tasks := remove1 f (tasks c)\<rparr>"
  have sub: "cache_inv S ?c" using inv set_remove1_subset [of f "tasks c"]     by (auto simp: cache_inv_def split: cstate.splits option.splits)
  have fl: "f < length (futures c)" using inv f by (simp add: cache_inv_def)
  have err: "cache_inv S (?c\<lparr>cstate := restore (case cstate c of Refreshing previous g \<Rightarrow> previous | _ \<Rightarrow> None)\<rparr>)"
  proof (cases "cstate c")
    case (Refreshing p g)
    then show ?thesis using restore_inv [OF sub, of p g] by simp
  qed (use sub in \<open>auto simp: cache_inv_def restore_def\<close>)
  show ?thesis
    using sub inv err current_inv [OF sub, of f _ now] fl
    by (auto simp: run_task_def Let_def split: option.splits sum.splits)
qed

lemma complete_fetch_inv:
  assumes "cache_inv S c" "f < length (futures c)" "outcome (futures c ! f) = None"
  shows "cache_inv S (complete_fetch f r c)"
proof -
  let ?c = "complete_fetch f r c"
  have "current_source S ?c v" if "current_source S c v" for v
  proof (cases "(generation c, v) \<in> S")
    case False
    with that obtain g where g: "g < length (futures c)" "started_in (futures c ! g) = generation c"
      "outcome (futures c ! g) = Some (Inr v)" by (auto simp: current_source_def in_set_conv_nth)
    with assms have "futures ?c ! g = futures c ! g" "g < length (futures ?c)" by (auto simp: complete_fetch_def nth_list_update)
    with g nth_mem [of g "futures ?c"] have "futures c ! g \<in> set (futures ?c)" by simp
    with g show ?thesis unfolding current_source_def by (auto simp: complete_fetch_def)
  qed (simp add: current_source_def complete_fetch_def)
  moreover have "started_in (futures ?c ! g) = started_in (futures c ! g)" for g
    using assms(2) by (cases "f = g") (auto simp: complete_fetch_def)
  moreover have "\<forall>g \<in> set (futures ?c). started_in g \<le> generation c"
    using assms by (auto simp: complete_fetch_def cache_inv_def dest!: set_update_subset_insert [THEN subsetD])
  moreover have "cstate ?c = cstate c" "tasks ?c = tasks c" "length (futures ?c) = length (futures c)" "generation ?c = generation c"
    by (simp_all add: complete_fetch_def)
  ultimately show ?thesis using assms(1)
    unfolding cache_inv_def by (auto split: cstate.splits option.splits)
qed

lemma fresh_value_source: "cache_inv S c \<Longrightarrow> fresh_value now l w (cstate c) = Some v \<Longrightarrow> current_source S c v"
  by (auto simp: fresh_value_def cache_inv_def Let_def split: cstate.splits option.splits if_splits)

text \<open>What a call may answer in a cache.\<close>

definition answer_ok :: "(nat \<times> 'v) set \<Rightarrow> ('v, 'e) bg_cache \<Rightarrow> 'v action \<Rightarrow> bool" where
  "answer_ok S c a =
     (case a of Return v \<Rightarrow> current_source S c v
      | Wait f \<Rightarrow> f < length (futures c) \<and> started_in (futures c ! f) = generation c)"

lemma cache_get_inv:
  assumes inv: "cache_inv S c" and "cache_get now p c = (p', c')"
  shows "cache_inv S c' \<and> generation c' = generation c
         \<and> (\<forall>a. p' = Answered a \<and> p \<noteq> Answered a \<longrightarrow> answer_ok S c' a)"
proof (cases p)
  case FastPath
  with assms fresh_value_source [OF inv] show ?thesis
    by (auto simp: answer_ok_def split: option.splits)
next
  case SlowPath
  with assms(2) determine_action_inv [OF inv] show ?thesis
    by (auto simp: answer_ok_def split: prod.splits)
next
  case (Answered a)
  with assms show ?thesis by simp
qed

lemma cache_run_inv: "cache_run S c \<Longrightarrow> cache_inv S c"
proof (induction rule: cache_run.induct)
  case (run_new l w c)
  then show ?case by (auto simp: cache_new_def cache_inv_def split: if_splits)
next
  case (run_seed S c v now)
  then show ?case by (auto simp: cache_seed_def cache_inv_def current_source_def)
next
  case (run_invalidate S c)
  then show ?case by (auto simp: cache_invalidate_def cache_inv_def)
next
  case (run_get S c now p p' c')
  then show ?case using cache_get_inv by blast
next
  case (run_complete S c f r)
  then show ?case by (blast intro: complete_fetch_inv)
next
  case (run_spawned S c f now)
  then show ?case by (blast intro: run_task_inv)
qed

text \<open>A call first takes over a finished fetch, then acts on a state without one.\<close>

definition settled :: "nat \<Rightarrow> ('v, 'e) bg_cache \<Rightarrow> ('v, 'e) bg_cache" where
  "settled now c =
     (case cstate c of
        Refreshing p f \<Rightarrow>
          (case outcome (futures c ! f) of
             None \<Rightarrow> c
           | Some (Inr v) \<Rightarrow> c\<lparr>cstate := Current v now\<rparr>
           | Some (Inl e) \<Rightarrow> c\<lparr>cstate := restore p\<rparr>)
      | _ \<Rightarrow> c)"

definition act :: "nat \<Rightarrow> ('v, 'e) bg_cache \<Rightarrow> 'v action \<times> ('v, 'e) bg_cache" where
  "act now c =
     (case cstate c of
        Empty \<Rightarrow> (Wait (length (futures c)), snd (start_fetch None c))
      | Current v t \<Rightarrow>
          if now - t < ttl c - refresh_window c then (Return v, c)
          else (if now - t < ttl c then Return v else Wait (length (futures c)), snd (start_fetch (Some (v, t)) c))
      | Refreshing p f \<Rightarrow>
          (case p of Some (v, t) \<Rightarrow> if now - t < ttl c then Return v else Wait f | None \<Rightarrow> Wait f, c))"

lemma determine_action_unfinished:
  "(\<And>p f. cstate c = Refreshing p f \<Longrightarrow> outcome (futures c ! f) = None) \<Longrightarrow> determine_action now c = act now c"
  by (simp add: determine_action.simps [of now c] act_def start_fetch_def Let_def split: cstate.splits option.splits)

lemma determine_action_act: "determine_action now c = act now (settled now c)"
proof (cases "\<exists>p f r. cstate c = Refreshing p f \<and> outcome (futures c ! f) = Some r")
  case True
  then obtain p f r where c: "cstate c = Refreshing p f" "outcome (futures c ! f) = Some r" by blast
  then have "determine_action now c = determine_action now (settled now c)"
    by (simp add: determine_action.simps [of now c] settled_def split: sum.splits)
  also have "\<dots> = act now (settled now c)"
    by (rule determine_action_unfinished) (use c in \<open>auto simp: settled_def restore_def split: sum.splits option.splits\<close>)
  finally show ?thesis .
next
  case False
  then have "settled now c = c" by (auto simp: settled_def split: cstate.splits option.splits)
  with False show ?thesis by (auto intro: determine_action_unfinished)
qed

lemma determine_action_config:
  "ttl (snd (determine_action now c)) = ttl c \<and> refresh_window (snd (determine_action now c)) = refresh_window c"
  by (auto simp: determine_action_act act_def settled_def start_fetch_def Let_def
      split: cstate.splits option.splits sum.splits)

lemma cache_get_config:
  "cache_get now p c = (p', c') \<Longrightarrow> ttl c' = ttl c \<and> refresh_window c' = refresh_window c"
  using determine_action_config [of now c] by (cases p) (auto split: option.splits prod.splits)

lemma cache_run_window: "cache_run S c \<Longrightarrow> refresh_window c < ttl c"
proof (induction rule: cache_run.induct)
  case (run_get S c now p p' c')
  then show ?case using cache_get_config by metis
qed (auto simp: cache_new_def cache_seed_def cache_invalidate_def complete_fetch_def run_task_def Let_def
    split: if_splits option.splits sum.splits)


text \<open>A call adds at most one fetch, started in the current generation and running.\<close>

lemma cache_get_futures:
  "cache_get now p c = (p', c') \<Longrightarrow>
     futures c' = futures c \<or> futures c' = futures c @ [\<lparr>started_in = generation c, outcome = None\<rparr>]"
  by (cases p) (auto simp: determine_action_act act_def settled_def start_fetch_def Let_def
      split: cstate.splits option.splits sum.splits if_splits)

text \<open>A call whose two regions follow each other without a step in between.\<close>

definition get_at :: "nat \<Rightarrow> ('v, 'e) bg_cache \<Rightarrow> 'v cache_call \<times> ('v, 'e) bg_cache" where
  "get_at now c = (let (p, c') = cache_get now FastPath c in cache_get now p c')"

section \<open>Properties\<close>

text \<open>
  C3 (invalidation). However the lock regions of callers, fetches and spawned tasks interleave, a call only returns a
  value that was seeded or fetched since the last invalidation before the region that answers it, and
  only waits for a fetch started since then.
\<close>
theorem cache_serves_generation:
  assumes "cache_run S c" and "cache_get now p c = (Answered a, c')" and "p = FastPath \<or> p = SlowPath"
  shows "case a of Return v \<Rightarrow> current_source S c' v
         | Wait f \<Rightarrow> f < length (futures c') \<and> started_in (futures c' ! f) = generation c'"
  using cache_get_inv [OF cache_run_inv [OF assms(1)] assms(2)] assms(3) by (auto simp: answer_ok_def)

text \<open>A cache that was seeded, refreshed in its window, and whose refresh was finished after an invalidation.\<close>

definition sample_cache :: "(nat, nat) bg_cache" where
  "sample_cache = \<lparr>ttl = 100, refresh_window = 25, cstate = Empty, generation = 1,
     futures = [\<lparr>started_in = 0, outcome = Some (Inr 8)\<rparr>], tasks = []\<rparr>"

definition sample_seeded :: "(nat, nat) bg_cache" where
  "sample_seeded = \<lparr>ttl = 100, refresh_window = 25, cstate = Current 7 0, generation = 0, futures = [], tasks = []\<rparr>"

lemma sample_seeded_run: "cache_run {(0, 7)} sample_seeded"
proof -
  let ?c0 = "\<lparr>ttl = 100, refresh_window = 25, cstate = Empty, generation = 0, futures = [], tasks = []\<rparr> :: (nat, nat) bg_cache"
  have "cache_new 100 25 = (Inr ?c0 :: (nat, nat) bg_cache result)" by (simp add: cache_new_def)
  then have "cache_run {(generation ?c0, 7)} (cache_seed 0 7 ?c0)" using cache_run.run_new cache_run.run_seed by metis
  then show ?thesis by (simp add: sample_seeded_def cache_seed_def)
qed

lemma sample_cache_run: "cache_run {(0, 7)} sample_cache"
proof -
  let ?c2 = "snd (cache_get 80 SlowPath sample_seeded)"
  let ?c3 = "complete_fetch 0 (Inr 8) (cache_invalidate ?c2)"
  have "cache_run {(0, 7)} ?c2"
    by (rule cache_run.run_get [OF sample_seeded_run, where now = 80 and p = SlowPath and p' = "fst (cache_get 80 SlowPath sample_seeded)"]) simp
  then have 2: "cache_run {(0, 7)} (cache_invalidate ?c2)" by (rule cache_run.run_invalidate)
  have "cache_run {(0, 7)} ?c3" by (rule cache_run.run_complete [OF 2]) (code_simp, code_simp)
  then have "cache_run {(0, 7)} (run_task 90 0 ?c3)" by (rule cache_run.run_spawned) code_simp
  moreover have "run_task 90 0 ?c3 = sample_cache" by code_simp
  ultimately show ?thesis by simp
qed

theorem cache_serves_generation_witness:
  "cache_run {(0, 7)} sample_cache \<and> fst (cache_get 95 SlowPath sample_cache) = Answered (Wait 1)
   \<and> started_in (futures (snd (cache_get 95 SlowPath sample_cache)) ! 1) = generation (snd (cache_get 95 SlowPath sample_cache))"
proof -
  have "fst (cache_get 95 SlowPath sample_cache) = Answered (Wait 1)" by code_simp
  then obtain c' where g: "cache_get 95 SlowPath sample_cache = (Answered (Wait 1), c')" by (metis prod.collapse)
  from cache_serves_generation [OF sample_cache_run this] sample_cache_run g show ?thesis by simp
qed

text \<open>
  C27 (time to live). A value is returned by the first region only outside the refresh window, by the second only within
  its time to live or because a fetch has just delivered it. The second region of a call inside the
  refresh window starts one fetch and returns the value. While the state names an unfinished fetch, no
  call starts another one: it returns the previous value within its time to live, and waits for that fetch
  otherwise. After taking over a finished fetch, the second region starts a fetch exactly when the state is
  empty or its value is in the refresh window or older.
\<close>
theorem cache_get_timing:
  assumes "cache_run S c"
  shows "(\<forall>v c'. cache_get now FastPath c = (Answered (Return v), c') \<longrightarrow>
            c' = c \<and> (\<exists>t f. (cstate c = Current v t \<or> cstate c = Refreshing (Some (v, t)) f)
              \<and> now - t < ttl c - refresh_window c))
         \<and> (\<forall>v c'. cache_get now SlowPath c = (Answered (Return v), c') \<longrightarrow>
            (\<exists>t f. (cstate c = Current v t \<or> cstate c = Refreshing (Some (v, t)) f) \<and> now - t < ttl c)
            \<or> (\<exists>p f. cstate c = Refreshing p f \<and> outcome (futures c ! f) = Some (Inr v)))
         \<and> (\<forall>v t. cstate c = Current v t \<and> ttl c - refresh_window c \<le> now - t \<and> now - t < ttl c \<longrightarrow>
              cache_get now SlowPath c = (Answered (Return v), snd (start_fetch (Some (v, t)) c)))
         \<and> (\<forall>p f. cstate c = Refreshing p f \<and> outcome (futures c ! f) = None \<longrightarrow>
              cache_get now SlowPath c =
                (Answered (case p of Some (v, t) \<Rightarrow> if now - t < ttl c then Return v else Wait f | None \<Rightarrow> Wait f), c))
         \<and> (\<forall>p' c'. cache_get now SlowPath c = (p', c') \<longrightarrow>
              (length (futures c') \<noteq> length (futures c)) =
                (case cstate (settled now c) of
                   Empty \<Rightarrow> True
                 | Current v t \<Rightarrow> ttl c - refresh_window c \<le> now - t
                 | Refreshing p f \<Rightarrow> False))"
    (is "?fast \<and> ?slow \<and> ?window \<and> ?joins \<and> ?starts")
proof (intro conjI)
  have w: "refresh_window c < ttl c" using assms by (rule cache_run_window)
  show ?fast by (auto simp: fresh_value_def Let_def split: cstate.splits option.splits if_splits)
  show ?slow
    by (auto simp: determine_action_act act_def settled_def restore_def start_fetch_def Let_def
        split: cstate.splits option.splits sum.splits if_splits)
  show ?window using w by (auto simp: determine_action_act act_def settled_def)
  show ?joins by (auto simp: determine_action_act act_def settled_def split: option.splits)
  show ?starts
    by (auto simp: determine_action_act act_def settled_def restore_def start_fetch_def Let_def
        split: cstate.splits option.splits sum.splits if_splits)
qed

theorem cache_get_timing_witness:
  "cache_run {(0, 7)} sample_seeded
   \<and> cache_get 80 SlowPath sample_seeded = (Answered (Return 7), snd (start_fetch (Some (7, 0)) sample_seeded))"
proof -
  have "cstate sample_seeded = Current 7 0 \<and> ttl sample_seeded - refresh_window sample_seeded \<le> 80 - 0
        \<and> 80 - 0 < ttl sample_seeded" by (simp add: sample_seeded_def)
  with cache_get_timing [OF sample_seeded_run, of 80] sample_seeded_run show ?thesis by blast
qed

text \<open>Two fetches do run at the same time after an invalidation: the next call starts one although the fetch of
  the old generation is still running.\<close>

lemma invalidation_starts_second_fetch:
  "map outcome (futures (snd (get_at 81 (cache_invalidate (snd (get_at 80 sample_seeded)))))) = [None, None]"
  by code_simp

text \<open>Two races of the spawned task. Both start from a refresh whose outcome a call takes over before the task
  has run. In the first, the late task of fetch 0 replaces the value of the newer fetch 1 by the older one,
  with a new time stamp; in the second, the late task of the failed fetch 0 empties a cache that holds a
  fresh value.\<close>

definition late_task :: "nat + nat \<Rightarrow> (nat, nat) bg_cache" where
  "late_task first =
     (let c1 = snd (get_at 80 sample_seeded);
          c2 = snd (get_at 81 (complete_fetch 0 first c1));
          c3 = snd (get_at 170 c2);
          c4 = snd (get_at 171 (complete_fetch 1 (Inr 9) c3))
      in run_task 172 0 c4)"

lemma late_task_restores_old_value: "cstate (late_task (Inr 8)) = Current 8 172"
  by code_simp

lemma late_task_drops_fresh_value: "cstate (late_task (Inl 0)) = Empty"
  by code_simp

text \<open>A third one: the late task of the failed fetch 0 puts the previous value back while fetch 1 of the same
  generation is running, and the next call starts fetch 2 beside it.\<close>

lemma late_task_doubles_fetch:
  "map outcome (futures (snd (get_at 83
     (run_task 82 0 (snd (get_at 81 (complete_fetch 0 (Inl 0) (snd (get_at 80 sample_seeded)))))))))
   = [Some (Inl 0), None, None]"
  by code_simp

end
