(* ===== verification/DatasetState.thy ===== *)
theory DatasetState
  imports BgCache
begin

text \<open>
  The wrapper that keeps a table's dataset consistent (\<^verbatim>\<open>table/dataset.rs\<close>): the dataset with its pin, the
  three consistency modes, and the operations that move it. The dataset itself belongs to the storage
  library; its operations are given by a record. Operations that wait for the storage release the lock
  meanwhile: what they do before and after is separated into lock regions, so that regions of several
  callers can interleave. A poisoned lock is not modelled.
\<close>

section \<open>State\<close>

text \<open>The references a checkout accepts.\<close>

datatype ref = VersionRef "string option" "nat option" | VersionNumber nat | Tag string

record 'd lance_ops =
  ds_version :: "'d \<Rightarrow> nat"
  ds_branch :: "'d \<Rightarrow> string option"
  checkout_latest :: "'d \<Rightarrow> 'd result"
  checkout_branch :: "'d \<Rightarrow> string \<Rightarrow> 'd result"
  checkout_version :: "'d \<Rightarrow> ref \<Rightarrow> 'd result"
  latest_version_id :: "'d \<Rightarrow> nat result"

record 'd dataset_state =
  dataset :: 'd
  pinned_version :: "nat option"
  query_snapshot :: bool

datatype 'd consistency_mode = Lazy | Strong | Eventual "('d, error) bg_cache"

record 'd wrapper =
  wstate :: "'d dataset_state"
  consistency :: "'d consistency_mode"

section \<open>Construction\<close>

text \<open>Durations in nanoseconds.\<close>

definition refresh_window_for :: "nat \<Rightarrow> nat" where
  "refresh_window_for d = min 3000000000 (d div 4)"

definition new_latest :: "nat \<Rightarrow> 'd \<Rightarrow> nat option \<Rightarrow> 'd wrapper result" where
  "new_latest now d read_consistency_interval =
     try_bind (case read_consistency_interval of
                 Some i \<Rightarrow>
                   if i = 0 then Inr Strong
                   else try_bind (cache_new i (refresh_window_for i)) (\<lambda>cache. Inr (Eventual (cache_seed now d cache)))
               | None \<Rightarrow> Inr Lazy) (\<lambda>mode.
     Inr \<lparr>wstate = \<lparr>dataset = d, pinned_version = None, query_snapshot = False\<rparr>, consistency = mode\<rparr>)"

definition new_time_travel :: "'d lance_ops \<Rightarrow> nat \<Rightarrow> 'd \<Rightarrow> nat option \<Rightarrow> 'd wrapper result" where
  "new_time_travel ops now d interval =
     try_bind (new_latest now d interval) (\<lambda>w.
     Inr (w\<lparr>wstate := (wstate w)\<lparr>pinned_version := Some (ds_version ops d)\<rparr>\<rparr>))"

text \<open>The part of \<^verbatim>\<open>new_query_snapshot\<close> after its call of \<^verbatim>\<open>get\<close>.\<close>

definition query_snapshot_of :: "'d lance_ops \<Rightarrow> 'd wrapper \<Rightarrow> 'd wrapper" where
  "query_snapshot_of ops w =
     (let s = wstate w in
      \<lparr>wstate = \<lparr>dataset = dataset s, pinned_version = Some (ds_version ops (dataset s)),
                query_snapshot = query_snapshot s \<or> pinned_version s = None\<rparr>,
       consistency = Lazy\<rparr>)"

section \<open>Lock regions\<close>

definition invalidate_mode :: "'d wrapper \<Rightarrow> 'd wrapper" where
  "invalidate_mode w =
     (case consistency w of Eventual c \<Rightarrow> w\<lparr>consistency := Eventual (cache_invalidate c)\<rparr> | _ \<Rightarrow> w)"

definition refresh_commit :: "'d lance_ops \<Rightarrow> 'd \<Rightarrow> 'd dataset_state \<Rightarrow> 'd dataset_state" where
  "refresh_commit ops new_arc s =
     (if pinned_version s = None \<and> ds_version ops (dataset s) \<le> ds_version ops new_arc
      then s\<lparr>dataset := new_arc\<rparr> else s)"

definition update_commit :: "'d lance_ops \<Rightarrow> 'd \<Rightarrow> 'd dataset_state \<Rightarrow> 'd dataset_state" where
  "update_commit ops d s =
     (if ds_version ops (dataset s) \<le> ds_version ops d then s\<lparr>dataset := d\<rparr> else s)"

definition branch_commit :: "'d \<Rightarrow> 'd dataset_state \<Rightarrow> 'd dataset_state" where
  "branch_commit new_dataset s = s\<lparr>dataset := new_dataset, pinned_version := None, query_snapshot := False\<rparr>"

definition latest_commit :: "'d \<Rightarrow> 'd dataset_state \<Rightarrow> 'd dataset_state" where
  "latest_commit new_dataset s =
     (if pinned_version s \<noteq> None then s\<lparr>dataset := new_dataset, pinned_version := None, query_snapshot := False\<rparr> else s)"

definition time_travel_commit :: "'d lance_ops \<Rightarrow> 'd \<Rightarrow> 'd dataset_state \<Rightarrow> 'd dataset_state" where
  "time_travel_commit ops new_dataset s =
     s\<lparr>dataset := new_dataset, pinned_version := Some (ds_version ops new_dataset), query_snapshot := False\<rparr>"

definition reload_commit :: "nat \<Rightarrow> 'd \<Rightarrow> 'd dataset_state \<Rightarrow> 'd dataset_state" where
  "reload_commit v new_dataset s = (if pinned_version s = Some v then s\<lparr>dataset := new_dataset\<rparr> else s)"

section \<open>Operations\<close>

text \<open>Where a call of \<^verbatim>\<open>get\<close> stands: before one of its lock regions, before a refresh, waiting for a fetch of
  the cache, or at its end.\<close>

datatype 'd get_step =
  PinCheck | TryGet | CacheGet "'d cache_call" | ReadState | Refresh | Fetching nat | Ready 'd

fun after_cache :: "'d cache_call \<Rightarrow> 'd get_step" where
  "after_cache (Answered (Return d)) = Ready d"
| "after_cache (Answered (Wait f)) = Fetching f"
| "after_cache p = CacheGet p"

text \<open>One lock region of a call. In the eventual mode the pin check, \<^verbatim>\<open>try_get\<close> and the two regions of the cache's
  \<^verbatim>\<open>get\<close> each take a lock of their own; in the lazy mode the state is locked a second time.\<close>

definition wrapper_get :: "nat \<Rightarrow> 'd get_step \<Rightarrow> 'd wrapper \<Rightarrow> 'd get_step \<times> 'd wrapper" where
  "wrapper_get now p w =
     (case (p, consistency w) of
        (PinCheck, mode) \<Rightarrow>
          if pinned_version (wstate w) \<noteq> None then (Ready (dataset (wstate w)), w)
          else (case mode of Eventual c \<Rightarrow> TryGet | Strong \<Rightarrow> Refresh | Lazy \<Rightarrow> ReadState, w)
      | (TryGet, Eventual c) \<Rightarrow>
          (case cache_try_get now c of Some d \<Rightarrow> Ready d | None \<Rightarrow> CacheGet FastPath, w)
      | (CacheGet q, Eventual c) \<Rightarrow>
          (let (q', c') = cache_get now q c in (after_cache q', w\<lparr>consistency := Eventual c'\<rparr>))
      | (ReadState, Lazy) \<Rightarrow> (Ready (dataset (wstate w)), w)
      | _ \<Rightarrow> (p, w))"

definition refresh_latest :: "'d lance_ops \<Rightarrow> 'd wrapper \<Rightarrow> ('d \<times> 'd wrapper) result" where
  "refresh_latest ops w =
     try_bind (checkout_latest ops (dataset (wstate w))) (\<lambda>new_arc.
     Inr (new_arc, w\<lparr>wstate := refresh_commit ops new_arc (wstate w)\<rparr>))"

definition update :: "'d lance_ops \<Rightarrow> 'd \<Rightarrow> 'd wrapper \<Rightarrow> 'd wrapper" where
  "update ops d w =
     (if pinned_version (wstate w) \<noteq> None then w
      else invalidate_mode (w\<lparr>wstate := update_commit ops d (wstate w)\<rparr>))"

definition as_branch :: "'d lance_ops \<Rightarrow> string \<Rightarrow> 'd wrapper \<Rightarrow> 'd wrapper result" where
  "as_branch ops branch w =
     try_bind (checkout_branch ops (dataset (wstate w)) branch) (\<lambda>new_dataset.
     Inr (invalidate_mode (w\<lparr>wstate := branch_commit new_dataset (wstate w)\<rparr>)))"

definition ensure_mutable :: "'d wrapper \<Rightarrow> unit result" where
  "ensure_mutable w =
     (if pinned_version (wstate w) \<noteq> None
      then Inl (InvalidInput ''table cannot be modified when a specific version is checked out'')
      else Inr ())"

definition wrapper_branch :: "'d lance_ops \<Rightarrow> 'd wrapper \<Rightarrow> string option" where
  "wrapper_branch ops w = ds_branch ops (dataset (wstate w))"

definition time_travel_version :: "'d wrapper \<Rightarrow> nat option" where
  "time_travel_version w = (if \<not> query_snapshot (wstate w) then pinned_version (wstate w) else None)"

definition as_latest :: "'d lance_ops \<Rightarrow> 'd wrapper \<Rightarrow> 'd wrapper result" where
  "as_latest ops w =
     (if pinned_version (wstate w) = None then Inr w
      else try_bind (latest_version_id ops (dataset (wstate w))) (\<lambda>latest_version.
           try_bind (checkout_version ops (dataset (wstate w)) (VersionNumber latest_version)) (\<lambda>new_dataset.
           Inr (invalidate_mode (w\<lparr>wstate := latest_commit new_dataset (wstate w)\<rparr>)))))"

fun should_checkout :: "nat option \<Rightarrow> ref \<Rightarrow> bool" where
  "should_checkout None target = True"
| "should_checkout (Some v) (VersionRef b (Some target_ver)) = (v \<noteq> target_ver)"
| "should_checkout (Some v) (VersionRef b None) = True"
| "should_checkout (Some v) (VersionNumber target_ver) = (v \<noteq> target_ver)"
| "should_checkout (Some v) (Tag t) = True"

definition as_time_travel :: "'d lance_ops \<Rightarrow> ref \<Rightarrow> 'd wrapper \<Rightarrow> 'd wrapper result" where
  "as_time_travel ops target w =
     (if \<not> should_checkout (pinned_version (wstate w)) target then Inr w
      else try_bind (checkout_version ops (dataset (wstate w)) target) (\<lambda>new_dataset.
           Inr (w\<lparr>wstate := time_travel_commit ops new_dataset (wstate w)\<rparr>)))"

definition reload :: "'d lance_ops \<Rightarrow> 'd wrapper \<Rightarrow> 'd wrapper result" where
  "reload ops w =
     (case pinned_version (wstate w) of
        None \<Rightarrow> try_bind (refresh_latest ops w) (\<lambda>(d, w'). Inr (invalidate_mode w'))
      | Some v \<Rightarrow>
          if ds_version ops (dataset (wstate w)) = v then Inr w
          else try_bind (checkout_version ops (dataset (wstate w)) (VersionNumber v)) (\<lambda>new_dataset.
               Inr (w\<lparr>wstate := reload_commit v new_dataset (wstate w)\<rparr>)))"

text \<open>An error shared by several waiters of one fetch keeps its kind only for the last owner.\<close>

definition unwrap_shared_error :: "bool \<Rightarrow> error \<Rightarrow> error" where
  "unwrap_shared_error only_owner e = (if only_owner then e else Runtime (error_to_string e))"


section \<open>Pins\<close>

text \<open>What is relied on of the storage library: checking out a version number gives that version.\<close>

definition checkout_laws :: "'d lance_ops \<Rightarrow> bool" where
  "checkout_laws ops = (\<forall>d v d'. checkout_version ops d (VersionNumber v) = Inr d' \<longrightarrow> ds_version ops d' = v)"

text \<open>The writes of all callers to the state, one lock region at a time, with any dataset the storage returned
  to them before.\<close>

inductive commit :: "'d lance_ops \<Rightarrow> 'd dataset_state \<Rightarrow> 'd dataset_state \<Rightarrow> bool" for ops where
  refreshed: "commit ops s (refresh_commit ops d s)"
| updated: "pinned_version s = None \<Longrightarrow> commit ops s (update_commit ops d s)"
| branched: "commit ops s (branch_commit d s)"
| unpinned: "commit ops s (latest_commit d s)"
| pinned: "commit ops s (time_travel_commit ops d s)"
| reloaded: "checkout_version ops d (VersionNumber v) = Inr d' \<Longrightarrow> commit ops s (reload_commit v d' s)"

definition state_inv :: "'d lance_ops \<Rightarrow> 'd dataset_state \<Rightarrow> bool" where
  "state_inv ops s =
     ((case pinned_version s of Some v \<Rightarrow> ds_version ops (dataset s) = v | None \<Rightarrow> True)
      \<and> (query_snapshot s \<longrightarrow> pinned_version s \<noteq> None))"

lemmas commit_defs = refresh_commit_def update_commit_def branch_commit_def latest_commit_def
  time_travel_commit_def reload_commit_def

lemma commit_inv: "commit ops s s' \<Longrightarrow> checkout_laws ops \<Longrightarrow> state_inv ops s \<Longrightarrow> state_inv ops s'"
proof (induction rule: commit.induct)
  case (reloaded d v d' s)
  then have "ds_version ops d' = v" by (auto simp: checkout_laws_def)
  with reloaded show ?case by (auto simp: state_inv_def reload_commit_def)
qed (auto simp: state_inv_def commit_defs split: option.splits)

inductive states :: "'d lance_ops \<Rightarrow> 'd dataset_state \<Rightarrow> bool" for ops where
  opened: "new_latest now d interval = Inr w \<Longrightarrow> states ops (wstate w)"
| travelled: "new_time_travel ops now d interval = Inr w \<Longrightarrow> states ops (wstate w)"
| snapshot: "states ops (wstate w) \<Longrightarrow> states ops (wstate (query_snapshot_of ops w))"
| stepped: "states ops s \<Longrightarrow> commit ops s s' \<Longrightarrow> states ops s'"

lemma states_inv: "states ops s \<Longrightarrow> checkout_laws ops \<Longrightarrow> state_inv ops s"
proof (induction rule: states.induct)
  case (opened now d interval w)
  then show ?case by (auto simp: new_latest_def try_bind_Inr_iff state_inv_def)
next
  case (travelled now d interval w)
  then show ?case by (auto simp: new_time_travel_def new_latest_def try_bind_Inr_iff state_inv_def)
next
  case (snapshot w)
  then show ?case by (auto simp: query_snapshot_of_def state_inv_def Let_def)
next
  case (stepped s s')
  then show ?case by (blast intro: commit_inv)
qed

section \<open>Reading own writes\<close>

definition fetches :: "'d wrapper \<Rightarrow> ('d, error) fetch list" where
  "fetches w = (case consistency w of Eventual c \<Rightarrow> futures c | _ \<Rightarrow> [])"

text \<open>
  A wrapper with a read consistency interval, together with the storage of the branch it is on. \<open>latest\<close> is the
  version the storage holds of that branch, \<open>written\<close> the newest version of it whose \<^verbatim>\<open>update\<close> has returned,
  \<open>starts\<close> the storage version at the start of each fetch. A fetch delivers at least that version as long as
  the wrapper stays on the branch; when a commit moves it to another branch, nothing is known of the fetches
  that are running and the versions are counted anew. The invalidation at the end of \<^verbatim>\<open>update\<close> is a lock
  region of its own, after the commit.
\<close>

inductive eventual_run :: "'d lance_ops \<Rightarrow> nat \<Rightarrow> nat \<Rightarrow> nat list \<Rightarrow> 'd wrapper \<Rightarrow> bool" for ops where
  opened: "new_latest now d (Some i) = Inr w \<Longrightarrow> i \<noteq> 0 \<Longrightarrow> eventual_run ops 0 latest [] w"
| external: "eventual_run ops written latest starts w \<Longrightarrow> latest \<le> latest' \<Longrightarrow> eventual_run ops written latest' starts w"
| committed: "eventual_run ops written latest starts w \<Longrightarrow> commit ops (wstate w) s \<Longrightarrow>
     ds_branch ops (dataset s) = ds_branch ops (dataset (wstate w)) \<Longrightarrow>
     eventual_run ops written latest starts (w\<lparr>wstate := s\<rparr>)"
| moved: "eventual_run ops written latest starts w \<Longrightarrow> commit ops (wstate w) s \<Longrightarrow>
     ds_branch ops (dataset s) \<noteq> ds_branch ops (dataset (wstate w)) \<Longrightarrow>
     eventual_run ops 0 latest' (map (\<lambda>_. 0) starts) (w\<lparr>wstate := s\<rparr>)"
| invalidated: "eventual_run ops written latest starts w \<Longrightarrow> v \<le> latest \<Longrightarrow>
     eventual_run ops (max written v) latest starts (invalidate_mode w)"
| got: "eventual_run ops written latest starts w \<Longrightarrow> wrapper_get now p w = (p', w') \<Longrightarrow>
     eventual_run ops written latest (starts @ replicate (length (fetches w') - length (fetches w)) latest) w'"
| fetched: "eventual_run ops written latest starts w \<Longrightarrow> consistency w = Eventual c \<Longrightarrow> f < length (futures c) \<Longrightarrow>
     outcome (futures c ! f) = None \<Longrightarrow> starts ! f \<le> ds_version ops d \<Longrightarrow>
     eventual_run ops written latest starts (w\<lparr>consistency := Eventual (complete_fetch f (Inr d) c)\<rparr>)"
| failed: "eventual_run ops written latest starts w \<Longrightarrow> consistency w = Eventual c \<Longrightarrow> f < length (futures c) \<Longrightarrow>
     outcome (futures c ! f) = None \<Longrightarrow>
     eventual_run ops written latest starts (w\<lparr>consistency := Eventual (complete_fetch f (Inl e) c)\<rparr>)"
| spawned: "eventual_run ops written latest starts w \<Longrightarrow> consistency w = Eventual c \<Longrightarrow> f \<in> set (tasks c) \<Longrightarrow>
     eventual_run ops written latest starts (w\<lparr>consistency := Eventual (run_task now f c)\<rparr>)"

definition fetch_ok :: "'d lance_ops \<Rightarrow> nat \<Rightarrow> nat \<Rightarrow> ('d, error) fetch \<Rightarrow> nat \<Rightarrow> bool" where
  "fetch_ok ops written g f start =
     ((started_in f = g \<longrightarrow> written \<le> start)
      \<and> (case outcome f of Some (Inr d) \<Rightarrow> start \<le> ds_version ops d | _ \<Rightarrow> True))"

definition eventual_inv :: "'d lance_ops \<Rightarrow> nat \<Rightarrow> nat \<Rightarrow> nat list \<Rightarrow> 'd wrapper \<Rightarrow> bool" where
  "eventual_inv ops written latest starts w =
     (\<exists>c d. consistency w = Eventual c \<and> cache_inv {(0, d)} c \<and> list_all2 (fetch_ok ops written (generation c)) (futures c) starts
        \<and> (generation c = 0 \<longrightarrow> written = 0) \<and> written \<le> latest)"

lemma refresh_window_less: "i \<noteq> 0 \<Longrightarrow> refresh_window_for i < i"
  by (rule le_less_trans [of _ "i div 4"]) (simp_all add: refresh_window_for_def)

lemma new_latest_ok:
  "new_latest now d interval =
     Inr \<lparr>wstate = \<lparr>dataset = d, pinned_version = None, query_snapshot = False\<rparr>,
          consistency = (case interval of None \<Rightarrow> Lazy | Some i \<Rightarrow> if i = 0 then Strong
             else Eventual \<lparr>ttl = i, refresh_window = refresh_window_for i, cstate = Current d now, generation = 0,
                            futures = [], tasks = []\<rparr>)\<rparr>"
  using refresh_window_less
  by (auto simp: new_latest_def cache_new_def cache_seed_def split: option.splits)

lemma run_task_same [simp]: "futures (run_task now f c) = futures c" "generation (run_task now f c) = generation c"
  by (auto simp: run_task_def Let_def split: option.splits sum.splits)

lemma wrapper_get_cases:
  assumes "wrapper_get now p w = (p', w')" "consistency w = Eventual c"
  shows "w' = w \<or> (\<exists>q q' c'. p = CacheGet q \<and> cache_get now q c = (q', c') \<and> p' = after_cache q'
                    \<and> w' = w\<lparr>consistency := Eventual c'\<rparr>)"
  using assms by (auto simp: wrapper_get_def split: get_step.splits prod.splits if_splits)

lemma fetch_ok_raise:
  assumes "list_all2 (fetch_ok ops written g) fs starts" "\<forall>f \<in> set fs. started_in f \<le> g"
  shows "list_all2 (fetch_ok ops v (g + 1)) fs starts"
  using assms by (auto simp: list_all2_conv_all_nth fetch_ok_def) (metis Suc_n_not_le_n nth_mem)

lemma fetch_ok_forget:
  "list_all2 (fetch_ok ops written g) fs starts \<Longrightarrow> list_all2 (fetch_ok ops 0 g) fs (map (\<lambda>_. 0) starts)"
  by (auto simp: list_all2_conv_all_nth fetch_ok_def split: option.splits sum.splits)

lemma fetch_ok_complete:
  assumes "list_all2 (fetch_ok ops written g) fs starts" "f < length fs"
    and "case r of Inr d \<Rightarrow> starts ! f \<le> ds_version ops d | Inl e \<Rightarrow> True"
  shows "list_all2 (fetch_ok ops written g) (fs[f := (fs ! f)\<lparr>outcome := Some r\<rparr>]) starts"
  using assms by (auto simp: list_all2_conv_all_nth fetch_ok_def nth_list_update split: sum.splits)

lemma eventual_get_inv:
  assumes inv: "eventual_inv ops written latest starts w" and get: "wrapper_get now p w = (p', w')"
  shows "eventual_inv ops written latest (starts @ replicate (length (fetches w') - length (fetches w)) latest) w'"
proof -
  from inv obtain c d where c: "consistency w = Eventual c" "cache_inv {(0, d)} c"
    "list_all2 (fetch_ok ops written (generation c)) (futures c) starts" "generation c = 0 \<longrightarrow> written = 0" "written \<le> latest"
    by (auto simp: eventual_inv_def)
  from wrapper_get_cases [OF get c(1)] show ?thesis
  proof (elim disjE conjE exE)
    assume "w' = w"
    with inv show ?thesis by simp
  next
    fix q q' c' assume g: "cache_get now q c = (q', c')" and w': "w' = w\<lparr>consistency := Eventual c'\<rparr>"
    have i: "cache_inv {(0, d)} c'" "generation c' = generation c" using cache_get_inv [OF c(2) g] by simp_all
    have "list_all2 (fetch_ok ops written (generation c')) (futures c')
            (starts @ replicate (length (futures c') - length (futures c)) latest)"
      using cache_get_futures [OF g] c(3,5) i(2) by (auto simp: list_all2_appendI fetch_ok_def)
    with i c w' show ?thesis unfolding eventual_inv_def fetches_def by auto
  qed
qed

lemma eventual_run_inv: "eventual_run ops written latest starts w \<Longrightarrow> eventual_inv ops written latest starts w"
proof (induction rule: eventual_run.induct)
  case (opened now d i w latest)
  then show ?case
    by (auto simp: new_latest_ok eventual_inv_def cache_inv_def current_source_def)
next
  case (external written latest starts w latest')
  then show ?case unfolding eventual_inv_def by (meson le_trans)
next
  case (committed written latest starts w s)
  then show ?case by (simp add: eventual_inv_def)
next
  case (moved written latest starts w s latest')
  then show ?case using fetch_ok_forget unfolding eventual_inv_def by fastforce
next
  case (invalidated written latest starts w v)
  then obtain c d where c: "consistency w = Eventual c" "cache_inv {(0, d)} c"
    "list_all2 (fetch_ok ops written (generation c)) (futures c) starts" "written \<le> latest" by (auto simp: eventual_inv_def)
  have "cache_inv {(0, d)} (cache_invalidate c)" using c(2) by (auto simp: cache_invalidate_def cache_inv_def)
  moreover have "list_all2 (fetch_ok ops (max written v) (generation (cache_invalidate c))) (futures (cache_invalidate c)) starts"
    using fetch_ok_raise [OF c(3)] c(2) by (simp add: cache_invalidate_def cache_inv_def)
  ultimately show ?case using c invalidated.hyps
    by (auto simp: eventual_inv_def invalidate_mode_def cache_invalidate_def)
next
  case (got written latest starts w now p p' w')
  then show ?case by (blast intro: eventual_get_inv)
next
  case (fetched written latest starts w c f d)
  then show ?case using complete_fetch_inv [of _ c f "Inr d"] fetch_ok_complete [of ops written "generation c" "futures c" starts f "Inr d"]
    by (auto simp: eventual_inv_def complete_fetch_def)
next
  case (failed written latest starts w c f e)
  then show ?case using complete_fetch_inv [of _ c f "Inl e"] fetch_ok_complete [of ops written "generation c" "futures c" starts f "Inl e"]
    by (auto simp: eventual_inv_def complete_fetch_def)
next
  case (spawned written latest starts w c f now)
  then show ?case by (auto simp: eventual_inv_def intro: run_task_inv)
qed

lemma current_source_written:
  assumes "current_source {(0, d)} c v" "list_all2 (fetch_ok ops written (generation c)) (futures c) starts"
    "generation c = 0 \<longrightarrow> written = 0"
  shows "written \<le> ds_version ops v"
proof (cases "generation c = 0 \<and> v = d")
  case True
  with assms(3) show ?thesis by simp
next
  case False
  with assms(1) obtain f where f: "f < length (futures c)" "started_in (futures c ! f) = generation c"
    "outcome (futures c ! f) = Some (Inr v)" by (auto simp: current_source_def in_set_conv_nth)
  from list_all2_nthD [OF assms(2) f(1)] f show ?thesis by (auto simp: fetch_ok_def)
qed


section \<open>Offered datasets\<close>

text \<open>What callers bring to a wrapper: the dataset of a write, or the one a refresh has checked out.\<close>

datatype 'd offer = Written (offered: 'd) | Refreshed (offered: 'd)

fun is_write :: "'d offer \<Rightarrow> bool" where
  "is_write (Written d) = True"
| "is_write (Refreshed d) = False"

fun store :: "'d lance_ops \<Rightarrow> 'd offer \<Rightarrow> 'd wrapper \<Rightarrow> 'd wrapper" where
  "store ops (Written d) w = update ops d w"
| "store ops (Refreshed d) w = w\<lparr>wstate := refresh_commit ops d (wstate w)\<rparr>"

definition store_all :: "'d lance_ops \<Rightarrow> 'd offer list \<Rightarrow> 'd wrapper \<Rightarrow> 'd wrapper" where
  "store_all ops offers w = fold (store ops) offers w"

text \<open>The last dataset of the newest version.\<close>

definition newest :: "'d lance_ops \<Rightarrow> 'd list \<Rightarrow> 'd" where
  "newest ops ds = last (filter (\<lambda>d. \<forall>e \<in> set ds. ds_version ops e \<le> ds_version ops d) ds)"

lemma store_unpinned: "pinned_version (wstate w) = None \<Longrightarrow> pinned_version (wstate (store ops x w)) = None"
  by (cases x) (auto simp: update_def update_commit_def refresh_commit_def invalidate_mode_def split: consistency_mode.splits)

lemma store_dataset:
  "pinned_version (wstate w) = None \<Longrightarrow> dataset (wstate (store ops x w)) =
     (if ds_version ops (dataset (wstate w)) \<le> ds_version ops (offered x) then offered x else dataset (wstate w))"
  by (cases x) (auto simp: update_def update_commit_def refresh_commit_def invalidate_mode_def split: consistency_mode.splits)

lemma newest_step:
  "newest ops ((if ds_version ops d \<le> ds_version ops e then e else d) # ds) = newest ops (d # e # ds)"
proof -
  let ?P = "\<lambda>es x. \<forall>y \<in> set es. ds_version ops y \<le> ds_version ops x"
  have "filter (?P (e # ds)) ds = filter (?P (d # e # ds)) ds" if "ds_version ops d \<le> ds_version ops e"
    using that by (intro filter_cong) auto
  moreover have "filter (?P (d # ds)) ds = filter (?P (d # e # ds)) ds" if "ds_version ops e < ds_version ops d"
    using that by (intro filter_cong) auto
  ultimately show ?thesis by (auto simp: newest_def not_le)
qed

section \<open>A concrete storage\<close>

text \<open>A dataset is a branch and a version; the storage holds version 9 of every branch but version 3 of the
  branches that are checked out by name.\<close>

definition sample_lance :: "(string option \<times> nat) lance_ops" where
  "sample_lance =
     \<lparr>ds_version = snd, ds_branch = fst, checkout_latest = (\<lambda>d. Inr (fst d, 9)),
      checkout_branch = (\<lambda>d b. Inr (Some b, 3)),
      checkout_version = (\<lambda>d r. case r of VersionNumber v \<Rightarrow> Inr (fst d, v) | VersionRef b (Some v) \<Rightarrow> Inr (b, v)
                                  | VersionRef b None \<Rightarrow> Inr (b, 3) | Tag t \<Rightarrow> Inr (fst d, 1)),
      latest_version_id = (\<lambda>d. Inr 9)\<rparr>"

lemma sample_lance_laws: "checkout_laws sample_lance"
  by (auto simp: checkout_laws_def sample_lance_def)

definition sample_wrapper :: "(string option \<times> nat) wrapper" where
  "sample_wrapper = \<lparr>wstate = \<lparr>dataset = (None, 5), pinned_version = None, query_snapshot = False\<rparr>,
     consistency = Eventual \<lparr>ttl = 100, refresh_window = 25, cstate = Current (None, 5) 0, generation = 0,
                             futures = [], tasks = []\<rparr>\<rparr>"

lemma sample_wrapper_new: "new_latest 0 (None, 5) (Some 100) = Inr sample_wrapper"
  by (simp add: new_latest_ok sample_wrapper_def refresh_window_for_def)

text \<open>A refresh that was started before the wrapper moved to another branch compares only version numbers: it
  brings the wrapper back to the branch it left.\<close>

lemma stale_refresh_switches_branch:
  "case (checkout_latest sample_lance (dataset (wstate sample_wrapper)), as_branch sample_lance ''dev'' sample_wrapper) of
     (Inr d, Inr w) \<Rightarrow> wrapper_branch sample_lance w = Some ''dev''
        \<and> wrapper_branch sample_lance (w\<lparr>wstate := refresh_commit sample_lance d (wstate w)\<rparr>) = None
   | _ \<Rightarrow> False"
  by (simp add: sample_lance_def sample_wrapper_def as_branch_def branch_commit_def wrapper_branch_def
      refresh_commit_def invalidate_mode_def)

text \<open>A checkout of the pinned version number on another branch is skipped.\<close>

lemma time_travel_ignores_branch:
  "pinned_version (wstate w) = Some v \<Longrightarrow> as_time_travel ops (VersionRef branch (Some v)) w = Inr w"
  by (simp add: as_time_travel_def)

section \<open>Properties\<close>

text \<open>
  C9 (pinned wrapper). A pinned wrapper reads the dataset at exactly its pinned version in every reachable state: no
  refresh, update or reload moves it, and it refuses to be modified.
\<close>
theorem pinned_wrapper:
  assumes "states ops (wstate w)" and "checkout_laws ops" and "pinned_version (wstate w) = Some v"
  shows "ds_version ops (dataset (wstate w)) = v
         \<and> wrapper_get now PinCheck w = (Ready (dataset (wstate w)), w)
         \<and> ensure_mutable w = Inl (InvalidInput ''table cannot be modified when a specific version is checked out'')
         \<and> update ops d w = w \<and> refresh_commit ops d (wstate w) = wstate w \<and> reload ops w = Inr w"
  using states_inv [OF assms(1,2)] assms(3)
  by (simp add: state_inv_def wrapper_get_def ensure_mutable_def update_def refresh_commit_def reload_def)

theorem pinned_wrapper_witness:
  "\<exists>w. as_time_travel sample_lance (Tag ''v1'') sample_wrapper = Inr w \<and> states sample_lance (wstate w)
     \<and> ds_version sample_lance (dataset (wstate w)) = 1 \<and> reload sample_lance w = Inr w"
proof -
  let ?w = "sample_wrapper\<lparr>wstate := time_travel_commit sample_lance (None, 1) (wstate sample_wrapper)\<rparr>"
  have w: "as_time_travel sample_lance (Tag ''v1'') sample_wrapper = Inr ?w"
    by (simp add: as_time_travel_def sample_lance_def sample_wrapper_def)
  have "states sample_lance (wstate sample_wrapper)" using sample_wrapper_new by (rule states.opened)
  then have s: "states sample_lance (wstate ?w)" by (auto intro: states.stepped commit.pinned)
  have "pinned_version (wstate ?w) = Some 1" by (simp add: time_travel_commit_def sample_lance_def)
  from pinned_wrapper [OF s sample_lance_laws this, of 0 "(None, 0)"] w s show ?thesis by blast
qed

text \<open>
  C1 (own writes). With a read consistency interval, once \<^verbatim>\<open>update\<close> with a version has returned, every later read of the
  wrapper, unpinned at its first region, delivers that version or a newer one, or waits for a fetch that
  was started when the storage already held it, whatever happens between the lock regions of the read, as
  long as the wrapper stays on its branch.
\<close>
theorem read_own_writes:
  assumes "eventual_run ops written latest starts w" and "wrapper_get now p w = (r, w')"
    and "p = PinCheck \<and> pinned_version (wstate w) = None \<or> p = TryGet \<or> p = CacheGet FastPath \<or> p = CacheGet SlowPath"
  shows "case r of
           Ready d \<Rightarrow> written \<le> ds_version ops d
         | Fetching f \<Rightarrow> written \<le> (starts @ replicate (length (fetches w') - length (fetches w)) latest) ! f
         | _ \<Rightarrow> r = TryGet \<or> r = CacheGet FastPath \<or> r = CacheGet SlowPath"
proof -
  let ?starts = "starts @ replicate (length (fetches w') - length (fetches w)) latest"
  have inv: "eventual_inv ops written latest starts w" using assms(1) by (rule eventual_run_inv)
  then obtain c d where c: "consistency w = Eventual c" "cache_inv {(0, d)} c" "generation c = 0 \<longrightarrow> written = 0"
    "list_all2 (fetch_ok ops written (generation c)) (futures c) starts"
    by (auto simp: eventual_inv_def)
  consider "p = PinCheck" "r = TryGet" | "p = TryGet" | q where "p = CacheGet q" "q = FastPath \<or> q = SlowPath"
    using assms(2,3) c(1) by (auto simp: wrapper_get_def)
  then show ?thesis
  proof cases
    case 1
    then show ?thesis by simp
  next
    case 2
    have "written \<le> ds_version ops v" if "cache_try_get now c = Some v" for v
      using current_source_written [OF fresh_value_source [OF c(2) that [unfolded cache_try_get_def]] c(4,3)] .
    with 2 assms(2) c(1) show ?thesis by (auto simp: wrapper_get_def split: option.splits)
  next
    case (3 q)
    then obtain q' c' where g: "cache_get now q c = (q', c')" "w' = w\<lparr>consistency := Eventual c'\<rparr>" "r = after_cache q'"
      using assms(2) c(1) by (auto simp: wrapper_get_def split: prod.splits)
    have i: "generation c' = generation c" "\<And>a. q' = Answered a \<Longrightarrow> answer_ok {(0, d)} c' a"
      using cache_get_inv [OF c(2) g(1)] 3(2) by auto
    have "eventual_inv ops written latest ?starts w'" by (rule eventual_get_inv [OF inv assms(2)])
    with g(2) have l: "list_all2 (fetch_ok ops written (generation c')) (futures c') ?starts"
      by (auto simp: eventual_inv_def)
    have a: "case after_cache (Answered a) of Ready v \<Rightarrow> written \<le> ds_version ops v | Fetching f \<Rightarrow> written \<le> ?starts ! f | _ \<Rightarrow> False"
      if "q' = Answered a" for a
      using i(2) [OF that] i(1) c(3) current_source_written [OF _ l, of d] list_all2_nthD [OF l]
      by (cases a) (auto simp: answer_ok_def fetch_ok_def)
    have "q' = SlowPath \<or> (\<exists>a. q' = Answered a)" using g(1) 3(2) by (auto split: option.splits prod.splits)
    with a g(3) show ?thesis by (auto split: get_step.splits)
  qed
qed

theorem read_own_writes_witness:
  "eventual_run sample_lance 6 8 [] (update sample_lance (None, 6) sample_wrapper)
   \<and> fst (wrapper_get 10 (CacheGet SlowPath) (update sample_lance (None, 6) sample_wrapper)) = Fetching 0
   \<and> (6::nat) \<le> [8] ! 0"
proof -
  let ?w = "invalidate_mode (sample_wrapper\<lparr>wstate := update_commit sample_lance (None, 6) (wstate sample_wrapper)\<rparr>)"
  have "eventual_run sample_lance 0 8 [] sample_wrapper"
    using sample_wrapper_new by (rule eventual_run.opened) simp
  then have "eventual_run sample_lance 0 8 [] (sample_wrapper\<lparr>wstate := update_commit sample_lance (None, 6) (wstate sample_wrapper)\<rparr>)"
    by (rule eventual_run.committed) (simp add: commit.updated sample_wrapper_def, simp add: sample_wrapper_def update_commit_def sample_lance_def)
  then have "eventual_run sample_lance (max 0 6) 8 [] ?w" by (rule eventual_run.invalidated) simp
  then have r: "eventual_run sample_lance 6 8 [] ?w" by simp
  have u: "update sample_lance (None, 6) sample_wrapper = ?w" by (simp add: update_def sample_wrapper_def)
  have f: "fst (wrapper_get 10 (CacheGet SlowPath) ?w) = Fetching 0"
    "length (fetches (snd (wrapper_get 10 (CacheGet SlowPath) ?w))) - length (fetches ?w) = 1"
    by (code_simp, code_simp)
  then obtain w' where g: "wrapper_get 10 (CacheGet SlowPath) ?w = (Fetching 0, w')" by (metis prod.collapse)
  from read_own_writes [OF r g] r u f g show ?thesis by simp
qed

text \<open>
  C28 (newest version). Whatever datasets the writes and refreshes of all callers bring to a wrapper that tracks the latest
  version, in any order, it ends up with the newest of them and of its own, and among those of the newest
  version with the one that came last. Every write gives the cache a new generation, and after a last
  write the cache is empty.
\<close>
theorem newest_version_wins:
  assumes "pinned_version (wstate w) = None"
  shows "dataset (wstate (store_all ops offers w)) = newest ops (dataset (wstate w) # map offered offers)
         \<and> pinned_version (wstate (store_all ops offers w)) = None
         \<and> (\<forall>c. consistency w = Eventual c \<longrightarrow>
              (\<exists>c'. consistency (store_all ops offers w) = Eventual c'
                 \<and> generation c' = generation c + length (filter is_write offers)
                 \<and> cstate c' = (if filter is_write offers = [] then cstate c else Empty)))"
  using assms
proof (induction offers arbitrary: w)
  case Nil
  then show ?case by (simp add: store_all_def newest_def)
next
  case (Cons x offers)
  let ?w = "store ops x w"
  have p: "pinned_version (wstate ?w) = None" using Cons.prems by (rule store_unpinned)
  have "dataset (wstate (store_all ops (x # offers) w)) = newest ops (dataset (wstate ?w) # map offered offers)"
    using Cons.IH [OF p] by (simp add: store_all_def)
  also have "\<dots> = newest ops (dataset (wstate w) # map offered (x # offers))"
    using Cons.prems by (simp add: store_dataset newest_step)
  finally show ?case using Cons.IH [OF p] Cons.prems
    by (cases x) (auto simp: store_all_def update_def invalidate_mode_def cache_invalidate_def)
qed

theorem newest_version_wins_witness:
  "dataset (wstate (store_all sample_lance [Written (None, 6), Refreshed (None, 4), Written (Some ''dev'', 6)] sample_wrapper))
   = (Some ''dev'', 6)"
proof -
  have "pinned_version (wstate sample_wrapper) = None" by (simp add: sample_wrapper_def)
  from newest_version_wins [OF this, of sample_lance "[Written (None, 6), Refreshed (None, 4), Written (Some ''dev'', 6)]"]
  show ?thesis by (simp add: newest_def sample_wrapper_def sample_lance_def)
qed

end
