(* ===== verification/Sidecar.thy ===== *)
theory Sidecar
  imports Prelude
begin

text \<open>
  The signature sidecars of computed columns (\<^verbatim>\<open>table/freshness.rs\<close>): the ordered map from fragment id to
  signature, its binary encoding, and the objects it is stored in, named by the digest of their
  content. Bytes are natural numbers below 256. Rust's \<^verbatim>\<open>BTreeMap\<close> is a list of entries with strictly
  ascending keys. The hash function and the object store's failures are parameters.
\<close>

section \<open>Ordered maps\<close>

type_synonym ('k, 'v) bt = "('k \<times> 'v) list"

fun bt_insert :: "'k::linorder \<Rightarrow> 'v \<Rightarrow> ('k, 'v) bt \<Rightarrow> ('k, 'v) bt" where
  "bt_insert k v [] = [(k, v)]"
| "bt_insert k v ((k', v') # m) =
     (if k < k' then (k, v) # (k', v') # m else if k = k' then (k, v) # m else (k', v') # bt_insert k v m)"

definition bt_extend :: "('k::linorder, 'v) bt \<Rightarrow> ('k \<times> 'v) list \<Rightarrow> ('k, 'v) bt" where
  "bt_extend m es = fold (\<lambda>(k, v). bt_insert k v) es m"

definition bt_inv :: "('k::linorder, 'v) bt \<Rightarrow> bool" where
  "bt_inv m = sorted_wrt (<) (map fst m)"

lemma bt_insert_keys: "fst ` set (bt_insert k v m) = insert k (fst ` set m)"
  by (induction k v m rule: bt_insert.induct) auto

lemma bt_insert_inv [intro]: "bt_inv m \<Longrightarrow> bt_inv (bt_insert k v m)"
proof (induction k v m rule: bt_insert.induct)
  case (2 k v k' v' m)
  then have "x \<in> fst ` set (bt_insert k v m) \<Longrightarrow> k' < k \<Longrightarrow> k' < x" for x
    by (auto simp: bt_insert_keys bt_inv_def)
  with 2 show ?case by (auto simp: bt_inv_def)
qed (simp add: bt_inv_def)

lemma bt_insert_lookup [simp]: "map_of (bt_insert k v m) = (map_of m)(k \<mapsto> v)"
  by (induction k v m rule: bt_insert.induct) (auto simp: fun_eq_iff)

lemma bt_extend_inv [intro]: "bt_inv m \<Longrightarrow> bt_inv (bt_extend m es)"
  unfolding bt_extend_def by (induction es arbitrary: m) (auto split: prod.splits)

lemma bt_extend_lookup: "map_of (bt_extend m es) = map_of m ++ map_of (rev es)"
  unfolding bt_extend_def by (induction es arbitrary: m) (auto simp: map_add_def fun_eq_iff split: option.splits)

lemma bt_filter_inv [intro]: "bt_inv m \<Longrightarrow> bt_inv (filter p m)"
  by (simp add: bt_inv_def sorted_wrt_map sorted_wrt_filter)

lemma bt_inv_distinct: "bt_inv m \<Longrightarrow> distinct (map fst m)"
  by (simp add: bt_inv_def strict_sorted_iff)

lemma map_of_filter_distinct:
  "distinct (map fst m) \<Longrightarrow> map_of (filter (\<lambda>e. p (fst e) (snd e)) m) k
     = (case map_of m k of Some v \<Rightarrow> if p k v then Some v else None | None \<Rightarrow> None)"
  by (induction m) (auto split: option.splits simp: map_of_eq_None_iff rev_image_eqI)

lemma bt_extend_sorted: "bt_inv m \<Longrightarrow> (\<forall>k \<in> fst ` set m. \<forall>e \<in> set es. k < fst e) \<Longrightarrow> sorted_wrt (<) (map fst es) \<Longrightarrow>
  bt_extend m es = m @ es"
proof (induction es arbitrary: m)
  case (Cons e es)
  have "bt_insert (fst e) (snd e) m = m @ [e]"
    using Cons.prems(2) by (induction m) (auto simp: less_imp_not_less)
  moreover have "bt_extend (m @ [e]) es = (m @ [e]) @ es"
    using Cons.prems by (intro Cons.IH) (auto simp: bt_inv_def sorted_wrt_append)
  ultimately show ?case by (cases e) (simp add: bt_extend_def)
qed (simp add: bt_extend_def)

lemma bt_collect_id: "bt_inv m \<Longrightarrow> bt_extend [] m = m"
  using bt_extend_sorted [of "[]" m] by (simp add: bt_inv_def)

section \<open>Numbers\<close>

text \<open>\<^verbatim>\<open>to_le_bytes\<close> and \<^verbatim>\<open>from_le_bytes\<close>, by the number of bytes.\<close>

fun to_le_bytes :: "nat \<Rightarrow> nat \<Rightarrow> nat list" where
  "to_le_bytes 0 n = []"
| "to_le_bytes (Suc k) n = n mod 256 # to_le_bytes k (n div 256)"

fun from_le_bytes :: "nat list \<Rightarrow> nat" where
  "from_le_bytes [] = 0"
| "from_le_bytes (b # bs) = b + 256 * from_le_bytes bs"

lemma to_le_bytes_length [simp]: "length (to_le_bytes k n) = k"
  by (induction k arbitrary: n) auto

lemma from_to_le_bytes: "n < 256 ^ k \<Longrightarrow> from_le_bytes (to_le_bytes k n) = n"
  by (induction k arbitrary: n) (auto simp: less_mult_imp_div_less)

lemma le_bytes_range: "list_all (\<lambda>b. b < 256) (to_le_bytes k n)"
  by (induction k arbitrary: n) auto

text \<open>Hexadecimal digits, as \<^verbatim>\<open>format!("{:02x}")\<close> prints and \<^verbatim>\<open>u64::from_str_radix\<close> reads them.\<close>

definition hex_digit :: "nat \<Rightarrow> char" where
  "hex_digit d = (if d < 10 then digit_char d else char_of (87 + d))"

fun show_hex :: "nat \<Rightarrow> nat \<Rightarrow> string" where
  "show_hex 0 n = []"
| "show_hex (Suc w) n = show_hex w (n div 16) @ [hex_digit (n mod 16)]"

definition hex_value :: "char \<Rightarrow> nat option" where
  "hex_value c =
     (let b = of_char c in
      if 48 \<le> b \<and> b \<le> 57 then Some (b - 48)
      else if 97 \<le> b \<and> b \<le> 102 then Some (b - 87)
      else if 65 \<le> b \<and> b \<le> 70 then Some (b - 55)
      else None)"

fun hex_number :: "nat \<Rightarrow> string \<Rightarrow> nat option" where
  "hex_number acc [] = Some acc"
| "hex_number acc (c # s) = (case hex_value c of None \<Rightarrow> None | Some d \<Rightarrow> hex_number (16 * acc + d) s)"

text \<open>Empty input, a bare sign, a digit out of range and an overflow are errors.\<close>

definition u64_from_hex :: "string \<Rightarrow> nat option" where
  "u64_from_hex s =
     (let ds = (case s of c # r \<Rightarrow> if c = CHR ''+'' then r else s | [] \<Rightarrow> [])
      in if ds = [] then None
         else case hex_number 0 ds of Some n \<Rightarrow> if n < 2 ^ 64 then Some n else None | None \<Rightarrow> None)"

lemma hex_value_digit: "d < 16 \<Longrightarrow> hex_value (hex_digit d) = Some d"
  by (auto simp: hex_value_def hex_digit_def digit_char_def Let_def)

lemma hex_number_append:
  "hex_number acc (s @ t) = (case hex_number acc s of None \<Rightarrow> None | Some n \<Rightarrow> hex_number n t)"
  by (induction acc s rule: hex_number.induct) (auto split: option.splits)

lemma hex_number_show: "n < 16 ^ w \<Longrightarrow> hex_number acc (show_hex w n) = Some (16 ^ w * acc + n)"
  by (induction w arbitrary: n)
    (auto simp: hex_number_append hex_value_digit less_mult_imp_div_less algebra_simps)

lemma show_hex_length [simp]: "length (show_hex w n) = w"
  by (induction w arbitrary: n) auto

lemma show_hex_no_plus: "CHR ''+'' \<notin> set (show_hex w n)"
proof (induction w arbitrary: n)
  case (Suc w)
  have "hex_value (hex_digit (n mod 16)) \<noteq> hex_value CHR ''+''" by (simp add: hex_value_digit) (simp add: hex_value_def)
  with Suc show ?case by auto
qed simp

lemma u64_from_hex_show: "n < 2 ^ 64 \<Longrightarrow> u64_from_hex (show_hex 16 n) = Some n"
proof -
  assume n: "n < 2 ^ 64"
  have "hex_number 0 (show_hex 16 n) = Some n" using hex_number_show [of n 16 0] n by simp
  moreover have "hd (show_hex 16 n) \<noteq> CHR ''+''" "show_hex 16 n \<noteq> []"
    using show_hex_no_plus [of 16 n] show_hex_length [of 16 n] by (metis hd_in_set length_0_conv zero_neq_numeral)+
  ultimately show ?thesis using n by (auto simp: u64_from_hex_def Let_def split: list.splits)
qed


section \<open>The encoding\<close>

type_synonym signature_map = "(nat, string) bt"

definition SIDECAR_DIR :: string where "SIDECAR_DIR = ''_computed''"
definition SIDECAR_REF :: string where "SIDECAR_REF = ''sidecar:''"
definition SIDECAR_MAGIC :: "nat list" where "SIDECAR_MAGIC = [67, 83, 73, 71]"
definition SIDECAR_FORMAT :: nat where "SIDECAR_FORMAT = 1"

definition not_hex :: "string \<Rightarrow> error" where
  "not_hex signature = InvalidInput (''signature '' @ quoted signature @ '' is not a 64-bit hex digest'')"

definition encode_entry :: "nat \<times> string \<Rightarrow> nat list result" where
  "encode_entry e =
     (case e of (fragment_id, signature) \<Rightarrow>
        try_bind (ok_or (not_hex signature) (u64_from_hex signature)) (\<lambda>hash.
        Inr (to_le_bytes 4 fragment_id @ to_le_bytes 8 hash)))"

definition encode_sidecar :: "signature_map \<Rightarrow> nat list result" where
  "encode_sidecar m =
     (if \<not> length m < 2 ^ 32 then Inl (InvalidInput ''too many fragments for a signature sidecar'')
      else try_bind (try_map encode_entry m) (\<lambda>entries.
           Inr (SIDECAR_MAGIC @ [SIDECAR_FORMAT] @ to_le_bytes 4 (length m) @ concat entries)))"

definition malformed :: error where
  "malformed = InvalidInput ''signature sidecar is malformed''"

function chunks_exact :: "nat \<Rightarrow> 'a list \<Rightarrow> 'a list list" where
  "chunks_exact n xs = (if n = 0 \<or> length xs < n then [] else take n xs # chunks_exact n (drop n xs))"
  by pat_completeness auto
termination by (relation "measure (\<lambda>(n, xs). length xs)") auto

declare chunks_exact.simps [simp del]

definition decode_entry :: "nat list \<Rightarrow> nat \<times> string" where
  "decode_entry entry = (from_le_bytes (take 4 entry), show_hex 16 (from_le_bytes (drop 4 entry)))"

definition decode_sidecar :: "nat list \<Rightarrow> signature_map result" where
  "decode_sidecar bytes =
     (if length bytes < 9 \<or> take 4 bytes \<noteq> SIDECAR_MAGIC \<or> bytes ! 4 \<noteq> SIDECAR_FORMAT then Inl malformed
      else let count = from_le_bytes (take 4 (drop 5 bytes)); body = drop 9 bytes
           in if length body \<noteq> count * 12 then Inl malformed
              else Inr (bt_extend [] (map decode_entry (chunks_exact 12 body))))"

text \<open>The maps the code records: signatures are printed 64-bit hashes, fragment ids and the number of entries
  fit in 32 bits.\<close>

definition wf_signatures :: "signature_map \<Rightarrow> bool" where
  "wf_signatures m =
     (bt_inv m \<and> length m < 2 ^ 32
      \<and> (\<forall>e \<in> set m. fst e < 2 ^ 32 \<and> (\<exists>h < 2 ^ 64. snd e = show_hex 16 h)))"

lemma chunks_exact_concat: "(\<forall>c \<in> set cs. length c = n) \<Longrightarrow> 0 < n \<Longrightarrow> chunks_exact n (concat cs) = cs"
proof (induction cs)
  case (Cons c cs)
  then show ?case by (subst chunks_exact.simps) auto
qed (simp add: chunks_exact.simps)

lemma entry_roundtrip:
  assumes "fst e < 2 ^ 32" "h < 2 ^ 64" "snd e = show_hex 16 h"
  shows "\<exists>b. encode_entry e = Inr b \<and> length b = 12 \<and> decode_entry b = e"
proof -
  have "encode_entry e = Inr (to_le_bytes 4 (fst e) @ to_le_bytes 8 h)"
    using assms by (cases e) (simp add: encode_entry_def u64_from_hex_show)
  moreover have "decode_entry (to_le_bytes 4 (fst e) @ to_le_bytes 8 h) = e"
    using assms from_to_le_bytes [of "fst e" 4] from_to_le_bytes [of h 8] by (cases e) (simp add: decode_entry_def)
  ultimately show ?thesis by simp
qed

lemma entries_roundtrip:
  assumes "\<forall>e \<in> set m. fst e < 2 ^ 32 \<and> (\<exists>h < 2 ^ 64. snd e = show_hex 16 h)"
  shows "\<exists>bs. try_map encode_entry m = Inr bs \<and> (\<forall>b \<in> set bs. length b = 12) \<and> map decode_entry bs = m"
  using assms
proof (induction m)
  case (Cons e m)
  then obtain bs h where "try_map encode_entry m = Inr bs" "\<forall>b \<in> set bs. length b = 12" "map decode_entry bs = m"
    "h < 2 ^ 64" "snd e = show_hex 16 h" "fst e < 2 ^ 32" by auto
  with entry_roundtrip [of e h] show ?case by auto
qed simp

lemma sum_list_const: "\<forall>b \<in> set bs. length b = (n::nat) \<Longrightarrow> length (concat bs) = length bs * n"
  by (induction bs) auto

lemma sidecar_decode_encode:
  assumes "wf_signatures m"
  shows "\<exists>b. encode_sidecar m = Inr b \<and> decode_sidecar b = Inr m"
proof -
  obtain bs where bs: "try_map encode_entry m = Inr bs" "\<forall>b \<in> set bs. length b = 12" "map decode_entry bs = m"
    using entries_roundtrip assms by (auto simp: wf_signatures_def)
  let ?b = "SIDECAR_MAGIC @ [SIDECAR_FORMAT] @ to_le_bytes 4 (length m) @ concat bs"
  have len: "length bs = length m" using bs(1) by (rule try_map_length)
  have body: "length (concat bs) = length m * 12" using sum_list_const [OF bs(2)] len by simp
  have "from_le_bytes (to_le_bytes 4 (length m)) = length m"
    using assms by (intro from_to_le_bytes) (simp add: wf_signatures_def)
  then have "decode_sidecar ?b = Inr (bt_extend [] (map decode_entry bs))"
    using body chunks_exact_concat [OF bs(2)] by (simp add: decode_sidecar_def SIDECAR_MAGIC_def Let_def del: length_concat)
  moreover have "encode_sidecar m = Inr ?b" using bs(1) assms by (simp add: encode_sidecar_def wf_signatures_def)
  ultimately show ?thesis using bs(3) bt_collect_id assms by (auto simp: wf_signatures_def)
qed

section \<open>Objects\<close>

text \<open>The object stores of a table and its bases: the objects by path, and the faults of opening a store (the
  own one, or that of a base), of reading other than by absence, of writing and of deleting.\<close>

record object_store =
  objects :: "string \<rightharpoonup> nat list"
  open_fault :: "nat option \<Rightarrow> error option"
  read_fault :: "string \<Rightarrow> error option"
  put_fault :: "string \<Rightarrow> error option"
  delete_fault :: "string \<Rightarrow> error option"

datatype read_answer = Found "nat list" | NotFound | Failed error

definition read_one_all :: "object_store \<Rightarrow> string \<Rightarrow> read_answer" where
  "read_one_all st path =
     (case read_fault st path of
        Some e \<Rightarrow> Failed e
      | None \<Rightarrow> (case objects st path of Some b \<Rightarrow> Found b | None \<Rightarrow> NotFound))"

definition put :: "object_store \<Rightarrow> string \<Rightarrow> nat list \<Rightarrow> object_store result" where
  "put st path bytes =
     (case put_fault st path of Some e \<Rightarrow> Inl e | None \<Rightarrow> Inr (st\<lparr>objects := (objects st)(path \<mapsto> bytes)\<rparr>))"

definition delete :: "object_store \<Rightarrow> string \<Rightarrow> object_store result" where
  "delete st path =
     (case delete_fault st path of Some e \<Rightarrow> Inl e | None \<Rightarrow> Inr (st\<lparr>objects := (objects st)(path := None)\<rparr>))"

text \<open>A computation on the store: it may fail, and keeps its effects when it does.\<close>

type_synonym 'a io = "object_store \<Rightarrow> 'a result \<times> object_store"

definition io_bind :: "'a io \<Rightarrow> ('a \<Rightarrow> 'b io) \<Rightarrow> 'b io" where
  "io_bind m f st = (case m st of (Inl e, st') \<Rightarrow> (Inl e, st') | (Inr x, st') \<Rightarrow> f x st')"

definition lift :: "'a result \<Rightarrow> 'a io" where
  "lift r st = (r, st)"

lemma io_bind_Inr_iff: "io_bind m f st = (Inr y, st'') \<longleftrightarrow> (\<exists>x st'. m st = (Inr x, st') \<and> f x st' = (Inr y, st''))"
  by (auto simp: io_bind_def split: prod.splits sum.splits)

lemma lift_Inr_iff: "lift r st = (Inr x, st') \<longleftrightarrow> r = Inr x \<and> st' = st"
  by (auto simp: lift_def)

definition open_store :: "nat option \<Rightarrow> unit io" where
  "open_store base st = (case open_fault st base of Some e \<Rightarrow> Inl e | None \<Rightarrow> Inr (), st)"

definition put_io :: "string \<Rightarrow> nat list \<Rightarrow> unit io" where
  "put_io path bytes st = (case put st path bytes of Inl e \<Rightarrow> (Inl e, st) | Inr st' \<Rightarrow> (Inr (), st'))"

text \<open>Where a sidecar lies: under the root of the table, shared by its branches.\<close>

definition sidecar_path :: "string \<Rightarrow> string \<Rightarrow> string" where
  "sidecar_path root digest = root @ ''/'' @ SIDECAR_DIR @ ''/'' @ digest @ ''.sig''"

definition digest_of :: "(nat list \<Rightarrow> nat list) \<Rightarrow> nat list \<Rightarrow> string" where
  "digest_of sha256 bytes = concat (map (show_hex 2) (sha256 bytes))"

definition write_sidecar ::
  "(nat list \<Rightarrow> nat list) \<Rightarrow> string result \<Rightarrow> signature_map \<Rightarrow> string io" where
  "write_sidecar sha256 root m =
     io_bind (lift (encode_sidecar m)) (\<lambda>bytes.
     let digest = digest_of sha256 bytes in
     io_bind (open_store None) (\<lambda>_.
     io_bind (lift root) (\<lambda>r.
     io_bind (put_io (sidecar_path r digest) bytes) (\<lambda>_.
     lift (Inr (SIDECAR_REF @ digest))))))"

text \<open>A base a clone reads its data from: its path without the branch part is a root with its own sidecars.\<close>

record base_path =
  bp_id :: nat
  bp_uri :: string
  bp_is_dataset_root :: bool
  bp_name :: "string option"
  bp_parts :: "string list result"

definition base_root :: "base_path \<Rightarrow> string list \<Rightarrow> string" where
  "base_root base parts =
     (let below_root = (case bp_name base of None \<Rightarrow> 0 | Some branch \<Rightarrow> 1 + length (split_on CHR ''/'' branch))
      in join_with CHR ''/'' (take (length parts - below_root) parts))"

fun read_sidecar_through_bases :: "object_store \<Rightarrow> base_path list \<Rightarrow> string \<Rightarrow> nat list result" where
  "read_sidecar_through_bases st [] digest =
     Inl (InvalidInput (''signature sidecar '' @ digest @ '' is in neither the table's directory nor a base's''))"
| "read_sidecar_through_bases st (base # bases) digest =
     (if \<not> bp_is_dataset_root base then read_sidecar_through_bases st bases digest
      else try_bind (bp_parts base) (\<lambda>parts.
           case open_fault st (Some (bp_id base)) of
             Some e \<Rightarrow> Inl e
           | None \<Rightarrow>
               (case read_one_all st (sidecar_path (base_root base parts) digest) of
                  Found bytes \<Rightarrow> Inr bytes
                | NotFound \<Rightarrow> read_sidecar_through_bases st bases digest
                | Failed e \<Rightarrow> Inl e)))"

text \<open>A copy found through a base is put under the own root; a failed copy is ignored.\<close>

definition check_digest :: "(nat list \<Rightarrow> nat list) \<Rightarrow> string \<Rightarrow> nat list \<Rightarrow> signature_map result" where
  "check_digest sha256 digest bytes =
     (if digest_of sha256 bytes \<noteq> digest
      then Inl (InvalidInput (''signature sidecar '' @ digest @ '' does not match its digest''))
      else decode_sidecar bytes)"

definition read_sidecar ::
  "(nat list \<Rightarrow> nat list) \<Rightarrow> string result \<Rightarrow> base_path list \<Rightarrow> string \<Rightarrow> signature_map io" where
  "read_sidecar sha256 root bases digest =
     io_bind (lift root) (\<lambda>r.
     io_bind (open_store None) (\<lambda>_ st.
     let own = sidecar_path r digest
     in case read_one_all st own of
          Found bytes \<Rightarrow> (check_digest sha256 digest bytes, st)
        | NotFound \<Rightarrow>
            (case read_sidecar_through_bases st bases digest of
               Inl e \<Rightarrow> (Inl e, st)
             | Inr bytes \<Rightarrow> (check_digest sha256 digest bytes, case put st own bytes of Inr st' \<Rightarrow> st' | Inl e \<Rightarrow> st))
        | Failed e \<Rightarrow> (Inl e, st)))"


section \<open>What was written can be read\<close>

text \<open>An encoding and its reader, and what they give for content-addressed objects.\<close>

locale codec =
  fixes enc :: "'m \<Rightarrow> nat list result" and dec :: "nat list \<Rightarrow> 'm result" and wf :: "'m \<Rightarrow> bool"
  assumes dec_enc: "wf m \<Longrightarrow> \<exists>b. enc m = Inr b \<and> dec b = Inr m"
begin

lemma enc_inject: "wf m \<Longrightarrow> wf m' \<Longrightarrow> enc m = enc m' \<Longrightarrow> m = m'"
  using dec_enc [of m] dec_enc [of m'] by auto

lemma stored:
  assumes "wf m" "enc m = Inr b" "put st path b = Inr st'" "read_fault st path = None"
  shows "\<exists>b'. read_one_all st' path = Found b' \<and> b' = b \<and> dec b' = Inr m"
  using assms dec_enc [OF assms(1)] by (auto simp: put_def read_one_all_def split: option.splits)

end

interpretation sidecar: codec encode_sidecar decode_sidecar wf_signatures
  by unfold_locales (rule sidecar_decode_encode)

lemma put_io_Inr_iff: "put_io path b st = (Inr (), st') \<longleftrightarrow> put st path b = Inr st'"
  by (auto simp: put_io_def split: sum.splits)

lemma write_sidecar_stores:
  assumes "wf_signatures m" "write_sidecar sha256 root m st = (Inr r, st')"
  obtains rt b where "root = Inr rt" "r = SIDECAR_REF @ digest_of sha256 b"
    "objects st' (sidecar_path rt (digest_of sha256 b)) = Some b" "decode_sidecar b = Inr m"
    "open_fault st None = None" "open_fault st' = open_fault st" "read_fault st' = read_fault st"
proof -
  from assms(2) obtain rt b where b: "encode_sidecar m = Inr b" "root = Inr rt" "open_fault st None = None"
    "put st (sidecar_path rt (digest_of sha256 b)) b = Inr st'" "r = SIDECAR_REF @ digest_of sha256 b"
    by (auto simp: write_sidecar_def io_bind_Inr_iff lift_Inr_iff Let_def put_io_Inr_iff open_store_def split: option.splits)
  have "decode_sidecar b = Inr m" using sidecar.dec_enc [OF assms(1)] b(1) by auto
  with b that show ?thesis by (auto simp: put_def split: option.splits)
qed

text \<open>What is in the own directory is what a read gives.\<close>

text \<open>A copy found through a base is put under the own root before its digest is checked.\<close>

lemma copied_before_check:
  assumes "open_fault st None = None" "read_one_all st (sidecar_path r d) = NotFound"
    and "read_sidecar_through_bases st bases d = Inr b" "put st (sidecar_path r d) b = Inr st'"
  shows "read_sidecar sha (Inr r) bases d st = (check_digest sha d b, st')"
  using assms by (simp add: read_sidecar_def io_bind_def lift_def open_store_def Let_def)

lemma read_sidecar_own:
  assumes "objects st (sidecar_path rt digest) = Some b" "read_fault st (sidecar_path rt digest) = None"
    "open_fault st None = None"
  shows "read_sidecar sha256 (Inr rt) bases digest st = (check_digest sha256 digest b, st)"
  using assms by (simp add: read_sidecar_def io_bind_def lift_def open_store_def read_one_all_def Let_def)

section \<open>Properties\<close>

text \<open>
  C10 (sidecar encoding). Every recorded signature map is encoded, and decoding the bytes gives back the map; so two maps
  with the same bytes are equal.
\<close>
theorem sidecar_roundtrip:
  assumes "wf_signatures m"
  shows "(\<exists>b. encode_sidecar m = Inr b \<and> decode_sidecar b = Inr m)
         \<and> (\<forall>m'. wf_signatures m' \<and> encode_sidecar m' = encode_sidecar m \<longrightarrow> m' = m)"
  using sidecar.dec_enc [OF assms] sidecar.enc_inject assms by blast

definition sample_signatures :: signature_map where
  "sample_signatures = [(0, ''00000000000000ff''), (7, ''0123456789abcdef'')]"

lemma sample_signatures_wf: "wf_signatures sample_signatures"
proof -
  have "''00000000000000ff'' = show_hex 16 255" "''0123456789abcdef'' = show_hex 16 81985529216486895" by code_simp+
  moreover have "(255::nat) < 2 ^ 64" "(81985529216486895::nat) < 2 ^ 64" by simp_all
  ultimately have "\<exists>h < 2 ^ 64. ''00000000000000ff'' = show_hex 16 h" "\<exists>h < 2 ^ 64. ''0123456789abcdef'' = show_hex 16 h"
    by blast+
  then show ?thesis by (simp add: wf_signatures_def sample_signatures_def bt_inv_def)
qed

theorem sidecar_roundtrip_witness:
  "encode_sidecar sample_signatures
     = Inr [67, 83, 73, 71, 1, 2, 0, 0, 0, 0, 0, 0, 0, 255, 0, 0, 0, 0, 0, 0, 0, 7, 0, 0, 0, 239, 205, 171, 137, 103, 69, 35, 1]
   \<and> (\<exists>b. encode_sidecar sample_signatures = Inr b \<and> decode_sidecar b = Inr sample_signatures)"
proof -
  have "encode_sidecar sample_signatures
     = Inr [67, 83, 73, 71, 1, 2, 0, 0, 0, 0, 0, 0, 0, 255, 0, 0, 0, 0, 0, 0, 0, 7, 0, 0, 0, 239, 205, 171, 137, 103, 69, 35, 1]"
    by code_simp
  with sidecar_roundtrip [OF sample_signatures_wf] show ?thesis by blast
qed

lemma chunks_exact_nth:
  "0 < n \<Longrightarrow> length xs = k * n \<Longrightarrow> chunks_exact n xs = map (\<lambda>i. take n (drop (n * i) xs)) [0..<k]"
proof (induction k arbitrary: xs)
  case 0
  then show ?case by (subst chunks_exact.simps) simp
next
  case (Suc k)
  then have "chunks_exact n xs = take n xs # map (\<lambda>i. take n (drop (n * i) (drop n xs))) [0..<k]"
    by (subst chunks_exact.simps) simp
  also have "\<dots> = map (\<lambda>i. take n (drop (n * i) xs)) (0 # map Suc [0..<k])" by (simp add: comp_def add.commute)
  finally show ?case by (simp only: map_Suc_upt upt_conv_Cons zero_less_Suc)
qed

lemma map_of_rev_last:
  "map_of (rev (map f [0..<n])) k = Some v \<longleftrightarrow>
     (\<exists>i < n. f i = (k, v) \<and> (\<forall>j. i < j \<and> j < n \<longrightarrow> fst (f j) \<noteq> k))"
proof (induction n)
  case (Suc n)
  have "map_of (rev (map f [0..<Suc n])) k = (if fst (f n) = k then Some (snd (f n)) else map_of (rev (map f [0..<n])) k)"
    by (cases "f n") auto
  with Suc show ?case by (auto simp: less_Suc_eq prod_eq_iff)
qed simp

text \<open>The fragment id and the signature of the entry at a position.\<close>

definition id_at :: "nat list \<Rightarrow> nat \<Rightarrow> nat" where
  "id_at bytes i = from_le_bytes (take 4 (drop (9 + 12 * i) bytes))"

definition signature_at :: "nat list \<Rightarrow> nat \<Rightarrow> string" where
  "signature_at bytes i = show_hex 16 (from_le_bytes (take 8 (drop (13 + 12 * i) bytes)))"

lemma decode_entry_at: "decode_entry (take 12 (drop (12 * i) (drop 9 bytes))) = (id_at bytes i, signature_at bytes i)"
  by (simp add: decode_entry_def id_at_def signature_at_def drop_take add.commute)

lemma guards_conj:
  "(\<not> a \<Longrightarrow> p = l) \<Longrightarrow> (if a \<or> b \<noteq> b' \<or> c \<noteq> c' then x else if \<not> p then x else y)
     = (if \<not> a \<and> b = b' \<and> c = c' \<and> l then y else x)"
  by auto

lemma decode_sidecar_eq:
  "decode_sidecar bytes =
     (let n = from_le_bytes (take 4 (drop 5 bytes)) in
      if 9 \<le> length bytes \<and> take 4 bytes = [67, 83, 73, 71] \<and> bytes ! 4 = 1 \<and> length bytes = 9 + 12 * n
      then Inr (bt_extend [] (map (\<lambda>i. (id_at bytes i, signature_at bytes i)) [0..<n])) else Inl malformed)"
proof -
  define n where "n = from_le_bytes (take 4 (drop 5 bytes))"
  note d = decode_sidecar_def [of bytes, folded n_def, unfolded SIDECAR_MAGIC_def SIDECAR_FORMAT_def Let_def]
  have "length (drop 9 bytes) = n * 12 \<longleftrightarrow> length bytes = 9 + 12 * n" if "9 \<le> length bytes"
    using that by (simp only: length_drop) arith
  then have e: "decode_sidecar bytes = (if 9 \<le> length bytes \<and> take 4 bytes = [67, 83, 73, 71] \<and> bytes ! 4 = 1
      \<and> length bytes = 9 + 12 * n then Inr (bt_extend [] (map decode_entry (chunks_exact 12 (drop 9 bytes)))) else Inl malformed)"
    unfolding d not_less [symmetric] if_not_P by (rule guards_conj)
  have "map decode_entry (chunks_exact 12 (drop 9 bytes)) = map (\<lambda>i. (id_at bytes i, signature_at bytes i)) [0..<n]"
    if "length bytes = 9 + 12 * n"
  proof -
    have "length (drop 9 bytes) = n * 12" using that by simp
    from chunks_exact_nth [OF _ this] show ?thesis by (simp only: map_map comp_def decode_entry_at)
  qed
  then show ?thesis unfolding Let_def n_def [symmetric] e by (intro if_cong refl) (elim conjE, simp only:)
qed

text \<open>
  C29 (malformed sidecars). Bytes are decoded exactly when they hold the magic, the format and as many twelve-byte entries
  as they announce. A decoded map is ordered, and holds for a fragment the signature of the last entry with
  its id, and nothing else.
\<close>
theorem decode_sidecar_accepts:
  "(is_ok (decode_sidecar bytes) \<longleftrightarrow>
      9 \<le> length bytes \<and> take 4 bytes = [67, 83, 73, 71] \<and> bytes ! 4 = 1
      \<and> length bytes = 9 + 12 * from_le_bytes (take 4 (drop 5 bytes)))
   \<and> (case decode_sidecar bytes of
        Inl e \<Rightarrow> e = malformed
      | Inr m \<Rightarrow> bt_inv m
          \<and> (\<forall>k v. map_of m k = Some v \<longleftrightarrow>
               (\<exists>i < from_le_bytes (take 4 (drop 5 bytes)). id_at bytes i = k \<and> signature_at bytes i = v
                  \<and> (\<forall>j. i < j \<and> j < from_le_bytes (take 4 (drop 5 bytes)) \<longrightarrow> id_at bytes j \<noteq> k))))"
proof -
  define n where "n = from_le_bytes (take 4 (drop 5 bytes))"
  let ?es = "map (\<lambda>i. (id_at bytes i, signature_at bytes i)) [0..<n]"
  have inv: "bt_inv (bt_extend [] ?es)" by (rule bt_extend_inv) (simp add: bt_inv_def)
  have "map_of (bt_extend [] ?es) k = map_of (rev ?es) k" for k by (simp add: bt_extend_lookup)
  then have "map_of (bt_extend [] ?es) k = Some v \<longleftrightarrow>
      (\<exists>i < n. id_at bytes i = k \<and> signature_at bytes i = v \<and> (\<forall>j. i < j \<and> j < n \<longrightarrow> id_at bytes j \<noteq> k))" for k v
    by (simp add: map_of_rev_last)
  with inv show ?thesis
    unfolding decode_sidecar_eq [unfolded Let_def] n_def [symmetric]
    by (simp only: is_ok_simps sum.case split: if_split) blast
qed

theorem decode_sidecar_accepts_witness:
  "\<exists>m. decode_sidecar [67, 83, 73, 71, 1, 2, 0, 0, 0, 7, 0, 0, 0, 255, 0, 0, 0, 0, 0, 0, 0, 7, 0, 0, 0, 239, 205, 171, 137, 103, 69, 35, 1]
      = Inr m \<and> map_of m 7 = Some ''0123456789abcdef''"
proof -
  let ?b = "[67, 83, 73, 71, 1, 2, 0, 0, 0, 7, 0, 0, 0, 255, 0, 0, 0, 0, 0, 0, 0, 7, 0, 0, 0, 239, 205, 171, 137, 103, 69, 35, 1] :: nat list"
  have n: "from_le_bytes (take 4 (drop 5 ?b)) = 2" by code_simp
  have e: "id_at ?b 1 = 7" "signature_at ?b 1 = ''0123456789abcdef''" by (code_simp, code_simp)
  have "is_ok (decode_sidecar ?b)" using decode_sidecar_accepts [THEN conjunct1, of ?b] n by simp
  then obtain m where m: "decode_sidecar ?b = Inr m" by (auto simp: is_ok_def split: sum.splits)
  have "map_of m 7 = Some ''0123456789abcdef'' \<longleftrightarrow> (\<exists>i < 2. id_at ?b i = 7 \<and> signature_at ?b i = ''0123456789abcdef''
          \<and> (\<forall>j. i < j \<and> j < 2 \<longrightarrow> id_at ?b j \<noteq> 7))"
    using decode_sidecar_accepts [THEN conjunct2, of ?b] unfolding m sum.case n by blast
  then have "map_of m 7 = Some ''0123456789abcdef''" using e by (auto intro!: exI [of _ 1])
  with m show ?thesis by blast
qed

end
