(* ===== verification/Freshness.thy ===== *)
theory Freshness
  imports Sidecar "HOL-Library.Char_ord" "HOL-Library.List_Lexorder"
begin

text \<open>
  Source-change detection for computed columns (\<^verbatim>\<open>table/freshness.rs\<close>): which input storage each fragment
  was computed from, what a refresh must recompute, and how the recorded state is stamped, carried through
  compactions and pruned. A dataset is what its manifest holds; checkouts, transactions, scans and the
  metadata commit of the storage library are given by a record. The cache of loaded manifests is
  transparent, since a checkout of a version is a function. Truncation of fragment ids to 32 bits is
  written out.
\<close>

section \<open>Manifests\<close>

datatype lance_field = LField (lf_id: int) (lf_name: string) (lf_children: "lance_field list")
    (lf_meta: "(string \<times> string) list")

record data_file =
  df_fields :: "int list"
  df_columns :: "int list"
  df_path :: string
  df_base :: "nat option"

record overlay =
  ov_file :: data_file
  ov_coverage :: "nat \<Rightarrow> nat list result"
  ov_version :: nat

record fragment =
  fr_id :: nat
  fr_files :: "data_file list"
  fr_overlays :: "overlay list"
  fr_rows :: "nat result"

record fdataset =
  fd_uri :: string
  fd_bases :: "base_path list"
  fd_version :: nat
  fd_branch :: "string option"
  fd_schema :: "lance_field list"
  fd_fragments :: "fragment list"

type_synonym input_fields = "(string list, int list) bt"

record input_basis =
  ib_files :: "(string \<times> string \<times> int) list"
  ib_overlays :: "(string \<times> string \<times> int \<times> nat list \<times> nat) list"

datatype operation = AppendOp | RewriteOp "(fragment list \<times> fragment list) list" | OtherOp

datatype transaction_answer = Transaction operation | NoTransaction | DatasetNotFound | ReadFailed error

record fresh_ops =
  url_before_query :: "string \<Rightarrow> string result"
  parse_field_path :: "string \<Rightarrow> string list result"
  schema_field :: "lance_field list \<Rightarrow> string \<Rightarrow> lance_field option"
  show_basis :: "input_basis \<Rightarrow> string"
  sha256 :: "nat list \<Rightarrow> nat list"
  main_root :: "fdataset \<Rightarrow> string result"
  checkout :: "fdataset \<Rightarrow> nat \<Rightarrow> fdataset result"
  checkout_main :: "fdataset \<Rightarrow> fdataset result"
  checkout_named :: "fdataset \<Rightarrow> string \<Rightarrow> fdataset result"
  read_transaction :: "fdataset \<Rightarrow> nat \<Rightarrow> transaction_answer"
  versions :: "fdataset \<Rightarrow> nat list result"
  list_branches :: "fdataset \<Rightarrow> string list result"
  scan_values :: "fdataset \<Rightarrow> fragment \<Rightarrow> string \<Rightarrow> (error + nat option list option) list result"
  json_map :: "string \<Rightarrow> signature_map result"
  read_dir :: "object_store \<Rightarrow> string \<Rightarrow> bool \<Rightarrow> string list result"
  commit_metadata :: "fdataset \<Rightarrow> string \<Rightarrow> (string \<times> string) list \<Rightarrow> fdataset result"

definition MAX_CARRY_FORWARD_VERSIONS :: nat where "MAX_CARRY_FORWARD_VERSIONS = 1024"
definition SOURCE_SIGNATURE_META_KEY :: string where
  "SOURCE_SIGNATURE_META_KEY = ''computed_refresh.source_signature''"
definition DEFINITION_VERSION_META_KEY :: string where
  "DEFINITION_VERSION_META_KEY = ''computed_refresh.definition_version''"
definition RECORDED_AT_VERSION_META_KEY :: string where
  "RECORDED_AT_VERSION_META_KEY = ''computed_refresh.recorded_at_version''"

definition as_u32 :: "nat \<Rightarrow> nat" where "as_u32 n = n mod 2 ^ 32"

definition fragment_ids :: "fdataset \<Rightarrow> nat list" where
  "fragment_ids ds = map (\<lambda>f. as_u32 (fr_id f)) (fd_fragments ds)"

definition get_fragment :: "fdataset \<Rightarrow> nat \<Rightarrow> fragment option" where
  "get_fragment ds i = List.find (\<lambda>f. fr_id f = i) (fd_fragments ds)"

section \<open>Signatures\<close>

definition short_hash :: "fresh_ops \<Rightarrow> string \<Rightarrow> string" where
  "short_hash ops value = concat (map (show_hex 2) (take 8 (sha256 ops (map of_char value))))"

definition definition_version :: "fresh_ops \<Rightarrow> string \<Rightarrow> string" where
  "definition_version ops text = short_hash ops text"

text \<open>The fields below one field, each with its own id and its ancestors'.\<close>

fun collect :: "lance_field \<Rightarrow> string list \<Rightarrow> int list \<Rightarrow> input_fields \<Rightarrow> input_fields"
  and collect_children :: "lance_field list \<Rightarrow> string list \<Rightarrow> int list \<Rightarrow> input_fields \<Rightarrow> input_fields" where
  "collect (LField i n cs md) path ancestors out =
     (let ids = i # ancestors in bt_insert path ids (collect_children cs path ids out))"
| "collect_children [] path ids out = out"
| "collect_children (c # cs) path ids out =
     collect_children cs path ids (collect c (path @ [lf_name c]) ids out)"

fun descend :: "error \<Rightarrow> lance_field \<Rightarrow> int list \<Rightarrow> string list \<Rightarrow> (lance_field \<times> int list) result" where
  "descend e field ancestors [] = Inr (field, ancestors)"
| "descend e field ancestors (name # rest) =
     try_bind (ok_or e (List.find (\<lambda>c. lf_name c = name) (lf_children field))) (\<lambda>child.
     descend e child (lf_id field # ancestors) rest)"

fun fields_for_paths :: "fresh_ops \<Rightarrow> lance_field list \<Rightarrow> string list \<Rightarrow> input_fields \<Rightarrow> input_fields result" where
  "fields_for_paths ops schema [] out = Inr out"
| "fields_for_paths ops schema (p # ps) out =
     try_bind (parse_field_path ops p) (\<lambda>parts.
     case parts of
       [] \<Rightarrow> Inl (InvalidInput ''computed column input path is empty'')
     | root # rest \<Rightarrow>
         (let unknown = InvalidInput (''unknown computed column input '' @ quoted p) in
          try_bind (ok_or unknown (schema_field ops schema root)) (\<lambda>field.
          try_bind (descend unknown field [] rest) (\<lambda>(leaf, ancestors).
          fields_for_paths ops schema ps (collect leaf parts ancestors out)))))"

text \<open>Where the bases of a table lie.\<close>

record bases =
  own :: string
  registered :: "(nat \<times> string) list"

definition trim_end_slashes :: "string \<Rightarrow> string" where
  "trim_end_slashes s = rev (dropWhile (\<lambda>c. c = CHR ''/'') (rev s))"

definition location :: "fresh_ops \<Rightarrow> string \<Rightarrow> bool \<Rightarrow> string result" where
  "location ops uri is_dataset_root =
     try_bind (url_before_query ops uri) (\<lambda>u.
     Inr (trim_end_slashes u @ (if is_dataset_root then ''/data'' else [])))"

definition bases_of :: "fresh_ops \<Rightarrow> fdataset \<Rightarrow> bases result" where
  "bases_of ops ds =
     try_bind (try_map (\<lambda>b. try_bind (location ops (bp_uri b) (bp_is_dataset_root b)) (\<lambda>l. Inr (bp_id b, l))) (fd_bases ds)) (\<lambda>reg.
     try_bind (location ops (fd_uri ds) True) (\<lambda>l.
     Inr \<lparr>own = l, registered = reg\<rparr>))"

definition base_location :: "bases \<Rightarrow> nat option \<Rightarrow> string result" where
  "base_location b base_id =
     (case base_id of
        None \<Rightarrow> Inr (own b)
      | Some i \<Rightarrow> ok_or (InvalidInput (''base path id '' @ show_nat i @ '' not found'')) (map_of (registered b) i))"

text \<open>The physical column of a field in a file: the first recorded id that is one of the field's.\<close>

fun position :: "('a \<Rightarrow> bool) \<Rightarrow> 'a list \<Rightarrow> nat option" where
  "position p [] = None"
| "position p (x # xs) = (if p x then Some 0 else map_option Suc (position p xs))"

definition column_of :: "int list \<Rightarrow> data_file \<Rightarrow> (nat \<times> int) option" where
  "column_of ids file =
     map_option (\<lambda>pos. (pos, if pos < length (df_columns file) then df_columns file ! pos else -1))
       (position (\<lambda>i. i \<in> set ids) (df_fields file))"

fun basis_files :: "bases \<Rightarrow> int list \<Rightarrow> data_file list \<Rightarrow> (string \<times> string \<times> int) list result" where
  "basis_files b ids [] = Inr []"
| "basis_files b ids (file # files) =
     (case column_of ids file of
        None \<Rightarrow> basis_files b ids files
      | Some (pos, col) \<Rightarrow>
          try_bind (base_location b (df_base file)) (\<lambda>l.
          try_bind (basis_files b ids files) (\<lambda>rest. Inr ((l, df_path file, col) # rest))))"

fun basis_overlays :: "bases \<Rightarrow> int list \<Rightarrow> overlay list \<Rightarrow> (string \<times> string \<times> int \<times> nat list \<times> nat) list result" where
  "basis_overlays b ids [] = Inr []"
| "basis_overlays b ids (ov # ovs) =
     (case column_of ids (ov_file ov) of
        None \<Rightarrow> basis_overlays b ids ovs
      | Some (pos, col) \<Rightarrow>
          try_bind (base_location b (df_base (ov_file ov))) (\<lambda>l.
          try_bind (ov_coverage ov pos) (\<lambda>cells.
          try_bind (basis_overlays b ids ovs) (\<lambda>rest.
          Inr ((l, df_path (ov_file ov), col, cells, ov_version ov) # rest)))))"

definition input_basis_of :: "bases \<Rightarrow> fragment \<Rightarrow> int list \<Rightarrow> input_basis result" where
  "input_basis_of b fr ids =
     try_bind (basis_files b ids (fr_files fr)) (\<lambda>files.
     try_bind (basis_overlays b ids (fr_overlays fr)) (\<lambda>overlays.
     Inr \<lparr>ib_files = files, ib_overlays = overlays\<rparr>))"

definition fragment_input_signature :: "fresh_ops \<Rightarrow> bases \<Rightarrow> fragment \<Rightarrow> input_fields \<Rightarrow> string result" where
  "fragment_input_signature ops b fr inputs =
     try_bind (try_map (\<lambda>(path, ids).
                 try_bind (input_basis_of b fr ids) (\<lambda>basis.
                 Inr (join_with CHR ''.'' path @ ''='' @ show_basis ops basis))) inputs) (\<lambda>parts.
     Inr (short_hash ops (join_with CHR ''|'' parts)))"

definition signature_of :: "fresh_ops \<Rightarrow> fdataset \<Rightarrow> nat \<Rightarrow> input_fields \<Rightarrow> string option result" where
  "signature_of ops ds i inputs =
     try_bind (bases_of ops ds) (\<lambda>b.
     case get_fragment ds i of
       None \<Rightarrow> Inr None
     | Some fr \<Rightarrow> try_bind (fragment_input_signature ops b fr inputs) (\<lambda>s. Inr (Some s)))"

definition signatures_for :: "fresh_ops \<Rightarrow> fdataset \<Rightarrow> nat list \<Rightarrow> input_fields \<Rightarrow> signature_map result" where
  "signatures_for ops ds ids inputs =
     try_bind (bases_of ops ds) (\<lambda>b.
     try_bind (try_map (\<lambda>fr. try_bind (fragment_input_signature ops b fr inputs) (\<lambda>s. Inr (as_u32 (fr_id fr), s)))
                 (filter (\<lambda>fr. as_u32 (fr_id fr) \<in> set ids) (fd_fragments ds))) (\<lambda>entries.
     Inr (bt_extend [] entries)))"


section \<open>Stored signatures\<close>

definition field_meta :: "fresh_ops \<Rightarrow> fdataset \<Rightarrow> string \<Rightarrow> string \<Rightarrow> string option" where
  "field_meta ops ds column key =
     (case schema_field ops (fd_schema ds) column of None \<Rightarrow> None | Some f \<Rightarrow> map_of (lf_meta f) key)"

datatype stored_signatures = Absent | Present signature_map | Unreadable

definition stored_signatures_of :: "fresh_ops \<Rightarrow> fdataset \<Rightarrow> string \<Rightarrow> object_store \<Rightarrow> stored_signatures \<times> object_store" where
  "stored_signatures_of ops ds column st =
     (case field_meta ops ds column SOURCE_SIGNATURE_META_KEY of
        None \<Rightarrow> (Absent, st)
      | Some encoded \<Rightarrow>
          (case (case strip_prefix SIDECAR_REF encoded of
                   Some digest \<Rightarrow> read_sidecar (sha256 ops) (main_root ops ds) (fd_bases ds) digest st
                 | None \<Rightarrow> (json_map ops encoded, st)) of
             (Inr m, st') \<Rightarrow> (Present m, st')
           | (Inl e, st') \<Rightarrow> (Unreadable, st')))"

text \<open>The digests of the objects in the directory, and those a version of the table refers to.\<close>

definition digest_of_name :: "string \<Rightarrow> string option" where
  "digest_of_name name = map_option rev (strip_prefix (rev ''.sig'') (rev name))"

fun fields_pre_order :: "lance_field \<Rightarrow> lance_field list" where
  "fields_pre_order (LField i n cs md) = LField i n cs md # concat (map fields_pre_order cs)"

definition digest_refs :: "fdataset \<Rightarrow> string list" where
  "digest_refs ds =
     List.map_filter (\<lambda>f. case map_of (lf_meta f) SOURCE_SIGNATURE_META_KEY of
         None \<Rightarrow> None | Some value \<Rightarrow> strip_prefix SIDECAR_REF value)
       (concat (map fields_pre_order (fd_schema ds)))"

definition referenced_digests :: "fresh_ops \<Rightarrow> fdataset \<Rightarrow> string list result" where
  "referenced_digests ops ds =
     try_bind (versions ops ds) (\<lambda>vs.
     try_bind (try_map (\<lambda>v. try_bind (checkout ops ds v) (\<lambda>at. Inr (digest_refs at))) vs) (\<lambda>refs.
     Inr (concat refs)))"

fun remove_unreferenced :: "string result \<Rightarrow> string list \<Rightarrow> string list \<Rightarrow> nat \<Rightarrow> nat io" where
  "remove_unreferenced root referenced [] removed st = (Inr removed, st)"
| "remove_unreferenced root referenced (d # ds) removed st =
     (if d \<in> set referenced then remove_unreferenced root referenced ds removed st
      else case root of
        Inl e \<Rightarrow> (Inl e, st)
      | Inr r \<Rightarrow>
          (case delete st (sidecar_path r d) of
             Inl e \<Rightarrow> (Inl e, st)
           | Inr st' \<Rightarrow> remove_unreferenced root referenced ds (removed + 1) st'))"

definition prune_sidecars :: "fresh_ops \<Rightarrow> fdataset \<Rightarrow> bool \<Rightarrow> nat io" where
  "prune_sidecars ops ds0 delete_unverified =
     io_bind (lift (if fd_branch ds0 \<noteq> None then checkout_main ops ds0 else Inr ds0)) (\<lambda>ds.
     io_bind (open_store None) (\<lambda>_.
     io_bind (lift (main_root ops ds)) (\<lambda>r st.
     case read_dir ops st (r @ ''/'' @ SIDECAR_DIR) (\<not> delete_unverified) of
       Inl e \<Rightarrow> (Inr 0, st)
     | Inr names \<Rightarrow>
         (let present = List.map_filter digest_of_name names in
          if present = [] then (Inr 0, st)
          else io_bind (lift (referenced_digests ops ds)) (\<lambda>on_main.
               io_bind (lift (list_branches ops ds)) (\<lambda>branches.
               io_bind (lift (try_map (\<lambda>b. try_bind (checkout_named ops ds b) (referenced_digests ops)) branches)) (\<lambda>on_branches.
               remove_unreferenced (main_root ops ds) (on_main @ concat on_branches) present 0))) st))))"

section \<open>Carrying freshness through compactions\<close>

record staleness_plan =
  recompute_all :: bool
  dirty :: "nat set"
  inherited :: signature_map

definition default_plan :: staleness_plan where
  "default_plan = \<lparr>recompute_all = False, dirty = {}, inherited = []\<rparr>"

definition is_dirty :: "staleness_plan \<Rightarrow> nat \<Rightarrow> bool" where
  "is_dirty plan i = (recompute_all plan \<or> i \<in> dirty plan)"

datatype lineage_step = AppendStep | Compaction "(nat list \<times> nat list) list"

definition file_identity :: "bases \<Rightarrow> data_file \<Rightarrow> (string \<times> string) result" where
  "file_identity b file = try_bind (base_location b (df_base file)) (\<lambda>l. Inr (l, df_path file))"

fun find_produced :: "bases \<Rightarrow> (string \<times> string \<rightharpoonup> nat) \<Rightarrow> data_file list \<Rightarrow> nat option result" where
  "find_produced b by_file [] = Inr None"
| "find_produced b by_file (file # files) =
     try_bind (file_identity b file) (\<lambda>k.
     case by_file k of Some i \<Rightarrow> Inr (Some i) | None \<Rightarrow> find_produced b by_file files)"

definition step_at :: "fresh_ops \<Rightarrow> fdataset \<Rightarrow> nat \<Rightarrow> lineage_step option result" where
  "step_at ops ds version =
     (case read_transaction ops ds version of
        NoTransaction \<Rightarrow> Inr None
      | DatasetNotFound \<Rightarrow> Inr None
      | ReadFailed e \<Rightarrow> Inl e
      | Transaction AppendOp \<Rightarrow> Inr (Some AppendStep)
      | Transaction OtherOp \<Rightarrow> Inr None
      | Transaction (RewriteOp groups) \<Rightarrow>
          try_bind (checkout ops ds version) (\<lambda>at.
          try_bind (bases_of ops at) (\<lambda>b.
          try_bind (try_map (\<lambda>(fr, file). try_bind (file_identity b file) (\<lambda>k. Inr (k, as_u32 (fr_id fr))))
                      (concat (map (\<lambda>fr. map (Pair fr) (fr_files fr)) (fd_fragments at)))) (\<lambda>keyed.
          try_bind (try_map (\<lambda>(old, new).
                      try_bind (try_map (\<lambda>fr.
                        try_bind (find_produced b (map_of (rev keyed)) (fr_files fr)) (\<lambda>found.
                        ok_or (InvalidInput (''a fragment added in version '' @ show_nat version
                                 @ '' is not in that version's manifest'')) found)) new) (\<lambda>produced.
                      Inr (map (\<lambda>fr. as_u32 (fr_id fr)) old, produced))) groups) (\<lambda>compactions.
          Inr (Some (Compaction compactions)))))))"

text \<open>The newest append whose version first holds the fragment decides; \<open>appends\<close> lists the newest last.\<close>

fun born_untouched :: "fresh_ops \<Rightarrow> fdataset \<Rightarrow> nat list \<Rightarrow> nat \<Rightarrow> string \<Rightarrow> input_fields \<Rightarrow> bool result" where
  "born_untouched ops ds [] i current inputs = Inr False"
| "born_untouched ops ds (v # vs) i current inputs =
     try_bind (checkout ops ds v) (\<lambda>at.
     try_bind (signature_of ops at i inputs) (\<lambda>born.
     case born of
       None \<Rightarrow> born_untouched ops ds vs i current inputs
     | Some b \<Rightarrow>
         try_bind (checkout ops ds (v - 1)) (\<lambda>before.
         try_bind (signature_of ops before i inputs) (\<lambda>earlier.
         if earlier \<noteq> None then born_untouched ops ds vs i current inputs else Inr (b = current)))))"

definition appended_untouched :: "fresh_ops \<Rightarrow> fdataset \<Rightarrow> nat list \<Rightarrow> nat \<Rightarrow> string option \<Rightarrow> input_fields \<Rightarrow> bool result" where
  "appended_untouched ops ds appends i current inputs =
     (case current of None \<Rightarrow> Inr False | Some c \<Rightarrow> born_untouched ops ds (rev appends) i c inputs)"

fun any_in_ranges :: "(error + nat option list option) list \<Rightarrow> (nat \<times> nat) list \<Rightarrow> bool result" where
  "any_in_ranges [] ranges = Inr False"
| "any_in_ranges (Inl e # bs) ranges = Inl e"
| "any_in_ranges (Inr None # bs) ranges = Inl (InvalidInput ''row addresses missing from a freshness scan'')"
| "any_in_ranges (Inr (Some addresses) # bs) ranges =
     (if list_ex (\<lambda>a. case a of None \<Rightarrow> False | Some x \<Rightarrow> list_ex (\<lambda>(lo, hi). lo \<le> as_u32 x \<and> as_u32 x < hi) ranges) addresses
      then Inr True else any_in_ranges bs ranges)"

definition holds_values_in :: "fresh_ops \<Rightarrow> fdataset \<Rightarrow> nat \<Rightarrow> string \<Rightarrow> (nat \<times> nat) list \<Rightarrow> bool result" where
  "holds_values_in ops ds i column ranges =
     (case get_fragment ds i of
        None \<Rightarrow> Inr False
      | Some fr \<Rightarrow> try_bind (scan_values ops ds fr column) (\<lambda>bs. any_in_ranges bs ranges))"


text \<open>The rows of one fragment, 0 when it is not there.\<close>

definition rows_in :: "fdataset \<Rightarrow> nat \<Rightarrow> nat result" where
  "rows_in ds i = (case get_fragment ds i of Some fr \<Rightarrow> fr_rows fr | None \<Rightarrow> Inr 0)"

definition gather_sources :: "fresh_ops \<Rightarrow> fdataset \<Rightarrow> nat list \<Rightarrow> input_fields \<Rightarrow> (nat \<times> string option \<times> nat) list result" where
  "gather_sources ops before consumed inputs =
     try_map (\<lambda>i. try_bind (rows_in before i) (\<lambda>live.
                  try_bind (signature_of ops before i inputs) (\<lambda>s. Inr (i, s, live)))) consumed"

text \<open>The ranges of appended rows when all sources are fresh, nothing otherwise.\<close>

fun classify :: "fresh_ops \<Rightarrow> fdataset \<Rightarrow> signature_map \<Rightarrow> nat list \<Rightarrow> input_fields \<Rightarrow>
    (nat \<times> string option \<times> nat) list \<Rightarrow> nat \<Rightarrow> (nat \<times> nat) list \<Rightarrow> (nat \<times> nat) list option result" where
  "classify ops ds fresh appends inputs [] off appended = Inr (Some appended)"
| "classify ops ds fresh appends inputs ((i, current, live) # sources) off appended =
     (if current \<noteq> None \<and> map_of fresh i = current
      then classify ops ds fresh appends inputs sources (off + live) appended
      else try_bind (appended_untouched ops ds appends i current inputs) (\<lambda>untouched.
           if untouched then classify ops ds fresh appends inputs sources (off + live) (appended @ [(off, off + live)])
           else Inr None))"

fun unfilled :: "fresh_ops \<Rightarrow> fdataset \<Rightarrow> string \<Rightarrow> (nat \<times> nat) list \<Rightarrow> nat list \<Rightarrow> nat \<Rightarrow> bool result" where
  "unfilled ops after column appended [] base = Inr True"
| "unfilled ops after column appended (i # produced) base =
     try_bind (rows_in after i) (\<lambda>rows.
     let local = map (\<lambda>(lo, hi). (max lo base - base, min hi (base + rows) - base))
                   (filter (\<lambda>(lo, hi). lo < base + rows \<and> base < hi) appended)
     in try_bind (if local = [] then Inr False else holds_values_in ops after i column local) (\<lambda>holds.
        if holds then Inr False else unfilled ops after column appended produced (base + rows)))"

fun record_products :: "fresh_ops \<Rightarrow> fdataset \<Rightarrow> input_fields \<Rightarrow> nat list \<Rightarrow>
    signature_map \<times> signature_map \<Rightarrow> (signature_map \<times> signature_map) result" where
  "record_products ops after inputs [] (fresh, inh) = Inr (fresh, inh)"
| "record_products ops after inputs (i # produced) (fresh, inh) =
     try_bind (signature_of ops after i inputs) (\<lambda>s.
     record_products ops after inputs produced
       (case s of None \<Rightarrow> (fresh, inh) | Some sig \<Rightarrow> (bt_insert i sig fresh, bt_insert i sig inh)))"

definition follow_compaction :: "fresh_ops \<Rightarrow> fdataset \<Rightarrow> string \<Rightarrow> input_fields \<Rightarrow> nat list \<Rightarrow> nat \<Rightarrow>
    nat list \<times> nat list \<Rightarrow> signature_map \<times> signature_map \<Rightarrow> (signature_map \<times> signature_map) result" where
  "follow_compaction ops ds column inputs appends version cp maps =
     (case cp of (consumed, produced) \<Rightarrow>
      try_bind (checkout ops ds (version - 1)) (\<lambda>before.
      try_bind (gather_sources ops before consumed inputs) (\<lambda>sources.
      if consumed = [] then Inr maps
      else try_bind (classify ops ds (fst maps) appends inputs sources 0 []) (\<lambda>c.
           case c of
             None \<Rightarrow> Inr maps
           | Some appended \<Rightarrow>
               try_bind (checkout ops ds version) (\<lambda>after.
               try_bind (unfilled ops after column appended produced 0) (\<lambda>u.
               if \<not> u then Inr maps else record_products ops after inputs produced maps))))))"

fun follow_compactions :: "fresh_ops \<Rightarrow> fdataset \<Rightarrow> string \<Rightarrow> input_fields \<Rightarrow> nat list \<Rightarrow> nat \<Rightarrow>
    (nat list \<times> nat list) list \<Rightarrow> signature_map \<times> signature_map \<Rightarrow> (signature_map \<times> signature_map) result" where
  "follow_compactions ops ds column inputs appends version [] maps = Inr maps"
| "follow_compactions ops ds column inputs appends version (cp # cps) maps =
     try_bind (follow_compaction ops ds column inputs appends version cp maps) (\<lambda>maps'.
     follow_compactions ops ds column inputs appends version cps maps')"

fun follow_versions :: "fresh_ops \<Rightarrow> fdataset \<Rightarrow> string \<Rightarrow> input_fields \<Rightarrow> nat list \<Rightarrow> nat list \<Rightarrow>
    signature_map \<times> signature_map \<Rightarrow> (signature_map \<times> signature_map) result" where
  "follow_versions ops ds column inputs appends [] maps = Inr maps"
| "follow_versions ops ds column inputs appends (v # vs) maps =
     try_bind (step_at ops ds v) (\<lambda>s.
     case s of
       None \<Rightarrow> follow_versions ops ds column inputs appends vs maps
     | Some AppendStep \<Rightarrow> follow_versions ops ds column inputs (appends @ [v]) vs maps
     | Some (Compaction cps) \<Rightarrow>
         try_bind (follow_compactions ops ds column inputs appends v cps maps) (\<lambda>maps'.
         follow_versions ops ds column inputs appends vs maps'))"

definition carried_forward :: "fresh_ops \<Rightarrow> fdataset \<Rightarrow> string \<Rightarrow> signature_map \<Rightarrow> input_fields \<Rightarrow> signature_map result" where
  "carried_forward ops ds column stored inputs =
     (case field_meta ops ds column RECORDED_AT_VERSION_META_KEY of
        None \<Rightarrow> Inr []
      | Some raw \<Rightarrow>
          (case parse_uint (2 ^ 64 - 1) raw of
             None \<Rightarrow> Inr []
           | Some recorded_at \<Rightarrow>
               (let to = fd_version ds in
                if to \<le> recorded_at \<or> MAX_CARRY_FORWARD_VERSIONS < to - recorded_at then Inr []
                else try_bind (follow_versions ops ds column inputs [] [recorded_at + 1..<to + 1] (stored, [])) (\<lambda>maps.
                     Inr (snd maps)))))"

section \<open>Planning and recording\<close>

definition staleness_from :: "fresh_ops \<Rightarrow> fdataset \<Rightarrow> string \<Rightarrow> input_fields \<Rightarrow> signature_map \<Rightarrow> staleness_plan result" where
  "staleness_from ops ds column inputs stored =
     try_bind (if list_ex (\<lambda>i. map_of stored i = None) (fragment_ids ds)
               then carried_forward ops ds column stored inputs else Inr []) (\<lambda>inh.
     try_bind (bases_of ops ds) (\<lambda>b.
     try_bind (try_map (\<lambda>fr. try_bind (fragment_input_signature ops b fr inputs) (\<lambda>s. Inr (as_u32 (fr_id fr), s)))
                 (fd_fragments ds)) (\<lambda>current.
     let d = set (map fst (filter (\<lambda>(i, s). (case map_of stored i of Some r \<Rightarrow> Some r | None \<Rightarrow> map_of inh i) \<noteq> Some s) current))
     in Inr \<lparr>recompute_all = False, dirty = d,
             inherited = filter (\<lambda>e. fst e \<in> set (fragment_ids ds) \<and> fst e \<notin> d) inh\<rparr>)))"

definition staleness_against :: "fresh_ops \<Rightarrow> fdataset \<Rightarrow> string \<Rightarrow> string \<Rightarrow> input_fields \<Rightarrow> staleness_plan io" where
  "staleness_against ops ds column def_version inputs st =
     (case stored_signatures_of ops ds column st of
        (Absent, st') \<Rightarrow> (Inr default_plan, st')
      | (Unreadable, st') \<Rightarrow> (Inr (default_plan\<lparr>recompute_all := True\<rparr>), st')
      | (Present stored, st') \<Rightarrow>
          (case field_meta ops ds column DEFINITION_VERSION_META_KEY of
             Some v \<Rightarrow> if v \<noteq> def_version then (Inr (default_plan\<lparr>recompute_all := True\<rparr>), st')
                       else (staleness_from ops ds column inputs stored, st')
           | None \<Rightarrow> (staleness_from ops ds column inputs stored, st')))"

record freshness_record =
  rec_version :: "nat option"
  rec_recorded :: nat
  rec_moved :: nat

definition write_signatures :: "fresh_ops \<Rightarrow> fdataset \<Rightarrow> string \<Rightarrow> string \<Rightarrow> signature_map \<Rightarrow> fdataset io" where
  "write_signatures ops ds column def_version entries st =
     (case stored_signatures_of ops ds column st of
        (s, st1) \<Rightarrow>
          (let before = (case s of Present stored \<Rightarrow> stored | _ \<Rightarrow> []);
               merged = filter (\<lambda>e. fst e \<in> set (fragment_ids ds)) (bt_extend before entries) in
           io_bind (if merged = [] then lift (Inr ''{}'') else write_sidecar (sha256 ops) (main_root ops ds) merged) (\<lambda>encoded.
           lift (commit_metadata ops ds column
             [(SOURCE_SIGNATURE_META_KEY, encoded), (DEFINITION_VERSION_META_KEY, def_version),
              (RECORDED_AT_VERSION_META_KEY, show_nat (fd_version ds))])) st1))"

definition record_freshness :: "fresh_ops \<Rightarrow> fdataset \<Rightarrow> (fdataset \<times> staleness_plan) option \<Rightarrow> string \<Rightarrow> string \<Rightarrow>
    input_fields \<Rightarrow> signature_map \<Rightarrow> (freshness_record \<times> fdataset) io" where
  "record_freshness ops latest pinned column def_version inputs computed st =
     (case stored_signatures_of ops latest column st of
        (s, st1) \<Rightarrow>
          io_bind (lift (case pinned of
              None \<Rightarrow> Inr []
            | Some (pds, staleness) \<Rightarrow>
                if s = Absent then signatures_for ops pds (fragment_ids pds) inputs else Inr (inherited staleness))) (\<lambda>base.
          let entries = bt_extend base computed in
          if entries = [] \<and> s \<noteq> Absent then lift (Inr (\<lparr>rec_version = None, rec_recorded = 0, rec_moved = 0\<rparr>, latest))
          else io_bind (lift (signatures_for ops latest (map fst entries) inputs)) (\<lambda>current.
               let verified = filter (\<lambda>e. map_of current (fst e) = Some (snd e)) entries in
               io_bind (write_signatures ops latest column def_version verified) (\<lambda>latest'.
               lift (Inr (\<lparr>rec_version = Some (fd_version latest'), rec_recorded = length verified,
                           rec_moved = length entries - length verified\<rparr>, latest'))))) st1)"

end
