(* ===== verification/FreshnessProofs.thy ===== *)
theory FreshnessProofs
  imports Freshness
begin

text \<open>
  What the freshness bookkeeping guarantees: signatures survive the sidecar, a recorded fragment is reported stale
  exactly when its input storage has changed, freshness is carried only along justified compactions, an
  unreadable stamp recomputes everything, and pruning keeps every referenced sidecar.
\<close>

section \<open>What is relied on\<close>

text \<open>A digest has 32 bytes; JSON objects are read into ordered maps; a metadata commit sets the given keys of
  the column and keeps the data.\<close>

definition sha_laws :: "fresh_ops \<Rightarrow> bool" where
  "sha_laws ops = (\<forall>b. length (sha256 ops b) = 32 \<and> list_all (\<lambda>x. x < 256) (sha256 ops b))"

definition json_laws :: "fresh_ops \<Rightarrow> bool" where
  "json_laws ops = (\<forall>s m. json_map ops s = Inr m \<longrightarrow> bt_inv m)"

definition commit_laws :: "fresh_ops \<Rightarrow> bool" where
  "commit_laws ops =
     (\<forall>ds c kvs ds'. commit_metadata ops ds c kvs = Inr ds' \<and> distinct (map fst kvs) \<longrightarrow>
        main_root ops ds' = main_root ops ds
        \<and> (\<forall>k v. map_of kvs k = Some v \<longrightarrow> field_meta ops ds' c k = Some v))"

section \<open>Signatures of fragments\<close>

text \<open>A short hash is a printed 64-bit number, so it survives the sidecar unchanged.\<close>

fun from_be_bytes :: "nat \<Rightarrow> nat list \<Rightarrow> nat" where
  "from_be_bytes acc [] = acc"
| "from_be_bytes acc (b # bs) = from_be_bytes (256 * acc + b) bs"

lemma show_hex_two: "b < 256 \<Longrightarrow> show_hex (w + 2) (256 * v + b) = show_hex w v @ show_hex 2 b"
proof -
  assume b: "b < 256"
  have "256 * v + b = b + (16 * v) * 16" by simp
  then have 1: "(256 * v + b) mod 16 = b mod 16" "(256 * v + b) div 16 = b div 16 + v * 16"
    by (simp_all only: mod_mult_self1 div_mult_self1)
  have c: "b div 16 < 16" using b by (intro less_mult_imp_div_less) simp
  have 2: "(b div 16 + v * 16) mod 16 = b div 16" "(b div 16 + v * 16) div 16 = v" "b div 16 mod 16 = b div 16"
    by (simp_all add: c)
  have "show_hex (Suc (Suc w)) (256 * v + b) = show_hex w v @ [hex_digit (b div 16), hex_digit (b mod 16)]"
    unfolding show_hex.simps 1 2 by simp
  moreover have "show_hex (Suc (Suc 0)) b = [hex_digit (b div 16), hex_digit (b mod 16)]"
    unfolding show_hex.simps 2(3) by simp
  ultimately show ?thesis by (simp only: numeral_2_eq_2 add_Suc_right add_0_right)
qed

lemma show_hex_bytes:
  "list_all (\<lambda>b. b < 256) bs \<Longrightarrow> show_hex w acc @ concat (map (show_hex 2) bs) = show_hex (w + 2 * length bs) (from_be_bytes acc bs)"
proof (induction bs arbitrary: w acc)
  case (Cons b bs)
  then have b: "b < 256" "list_all (\<lambda>b. b < 256) bs" by simp_all
  have "show_hex w acc @ concat (map (show_hex 2) (b # bs)) = (show_hex w acc @ show_hex 2 b) @ concat (map (show_hex 2) bs)"
    by (simp only: list.map concat.simps append_assoc)
  also have "\<dots> = show_hex (w + 2 + 2 * length bs) (from_be_bytes (256 * acc + b) bs)"
    unfolding show_hex_two [OF b(1), symmetric] by (rule Cons.IH [OF b(2)])
  also have "w + 2 + 2 * length bs = w + 2 * length (b # bs)" by simp
  finally show ?case unfolding from_be_bytes.simps .
qed simp

lemma from_be_bytes_less: "list_all (\<lambda>b. b < 256) bs \<Longrightarrow> acc < 256 ^ k \<Longrightarrow> from_be_bytes acc bs < 256 ^ (k + length bs)"
proof (induction bs arbitrary: acc k)
  case (Cons b bs)
  then have "256 * acc + b < 256 * 256 ^ k" by simp
  then have "256 * acc + b < 256 ^ Suc k" by simp
  then have "from_be_bytes (256 * acc + b) bs < 256 ^ (Suc k + length bs)" using Cons.prems(1) by (intro Cons.IH) simp_all
  then show ?case unfolding from_be_bytes.simps by (simp only: list.size add_Suc add_Suc_right add_0_right)
qed simp

definition is_signature :: "string \<Rightarrow> bool" where
  "is_signature s = (\<exists>h < 2 ^ 64. s = show_hex 16 h)"

lemma short_hash_signature: "sha_laws ops \<Longrightarrow> is_signature (short_hash ops v)"
proof -
  assume "sha_laws ops"
  then have b: "list_all (\<lambda>x. x < 256) (take 8 (sha256 ops (map of_char v)))" "length (take 8 (sha256 ops (map of_char v))) = 8"
    by (auto simp: sha_laws_def list_all_iff dest: in_set_takeD)
  from show_hex_bytes [OF b(1), of 0 0] b(2) have "short_hash ops v = show_hex 16 (from_be_bytes 0 (take 8 (sha256 ops (map of_char v))))"
    by (simp add: short_hash_def)
  moreover have "from_be_bytes 0 (take 8 (sha256 ops (map of_char v))) < 2 ^ 64"
    using from_be_bytes_less [OF b(1), of 0 0] unfolding b(2) by simp
  ultimately show ?thesis by (auto simp: is_signature_def)
qed

lemma fragment_signature_form:
  "sha_laws ops \<Longrightarrow> fragment_input_signature ops b fr inputs = Inr s \<Longrightarrow> is_signature s"
  by (auto simp: fragment_input_signature_def try_bind_Inr_iff short_hash_signature)

definition signed :: "fresh_ops \<Rightarrow> fdataset \<Rightarrow> input_fields \<Rightarrow> nat \<Rightarrow> string \<Rightarrow> bool" where
  "signed ops ds inputs i s =
     (\<exists>b fr. bases_of ops ds = Inr b \<and> fr \<in> set (fd_fragments ds) \<and> as_u32 (fr_id fr) = i
             \<and> fragment_input_signature ops b fr inputs = Inr s)"

lemma distinct_fragment:
  "distinct (fragment_ids ds) \<Longrightarrow> fr \<in> set (fd_fragments ds) \<Longrightarrow> fr' \<in> set (fd_fragments ds) \<Longrightarrow>
   as_u32 (fr_id fr) = as_u32 (fr_id fr') \<Longrightarrow> fr = fr'"
  unfolding fragment_ids_def distinct_map by (auto dest: inj_onD)

lemma signed_unique: "distinct (fragment_ids ds) \<Longrightarrow> signed ops ds inputs i s \<Longrightarrow> signed ops ds inputs i s' \<Longrightarrow> s = s'"
  unfolding signed_def using distinct_fragment by fastforce

text \<open>The entries a list of fragments gives.\<close>

lemma entries_of_fragments:
  assumes "try_map (\<lambda>fr. try_bind (fragment_input_signature ops b fr inputs) (\<lambda>s. Inr (as_u32 (fr_id fr), s))) frs = Inr es"
  shows "map fst es = map (\<lambda>fr. as_u32 (fr_id fr)) frs"
    and "(i, s) \<in> set es \<longleftrightarrow> (\<exists>fr \<in> set frs. as_u32 (fr_id fr) = i \<and> fragment_input_signature ops b fr inputs = Inr s)"
  using assms
  by (induction frs arbitrary: es) (auto simp: try_bind_Inr_iff)

lemma map_of_rev_distinct: "distinct (map fst es) \<Longrightarrow> map_of (rev es) = map_of es"
  by (rule map_of_inject_set [THEN iffD2]) (simp_all add: rev_map [symmetric])

lemma signatures_for_inv: "signatures_for ops ds ids inputs = Inr m \<Longrightarrow> bt_inv m"
  by (auto simp: signatures_for_def try_bind_Inr_iff bt_inv_def [of "[]"])

lemma signatures_for_lookup:
  assumes "signatures_for ops ds ids inputs = Inr m" "distinct (fragment_ids ds)"
  shows "map_of m i = Some s \<longleftrightarrow> i \<in> set ids \<and> signed ops ds inputs i s"
proof -
  let ?frs = "filter (\<lambda>fr. as_u32 (fr_id fr) \<in> set ids) (fd_fragments ds)"
  from assms(1) obtain b es where b: "bases_of ops ds = Inr b" and
    es: "try_map (\<lambda>fr. try_bind (fragment_input_signature ops b fr inputs) (\<lambda>s. Inr (as_u32 (fr_id fr), s))) ?frs = Inr es"
    and m: "m = bt_extend [] es"
    by (auto simp: signatures_for_def try_bind_Inr_iff)
  have "distinct (map fst es)" using entries_of_fragments(1) [OF es] assms(2)
    by (simp add: fragment_ids_def distinct_map_filter)
  then have "map_of m i = Some s \<longleftrightarrow> (i, s) \<in> set es"
    by (simp add: m bt_extend_lookup map_of_rev_distinct)
  then show ?thesis using entries_of_fragments(2) [OF es] b by (auto simp: signed_def)
qed


section \<open>Stamps\<close>

text \<open>What a stored map becomes when it is read back: signatures in their printed form.\<close>

definition normal :: "signature_map \<Rightarrow> signature_map" where
  "normal m = map (\<lambda>(i, s). (i, show_hex 16 (the (u64_from_hex s)))) m"

lemma normal_lookup: "map_of (normal m) i = map_option (\<lambda>s. show_hex 16 (the (u64_from_hex s))) (map_of m i)"
  by (induction m) (auto simp: normal_def)

lemma normal_signature: "is_signature s \<Longrightarrow> show_hex 16 (the (u64_from_hex s)) = s"
  by (auto simp: is_signature_def u64_from_hex_show)

lemma u64_from_hex_less: "u64_from_hex s = Some n \<Longrightarrow> n < 2 ^ 64"
  by (auto simp: u64_from_hex_def Let_def split: if_splits option.splits)

lemma decode_encoded_entry:
  assumes "encode_entry e = Inr b" "fst e < 2 ^ 32"
  shows "length b = 12 \<and> decode_entry b = (fst e, show_hex 16 (the (u64_from_hex (snd e))))"
proof -
  from assms(1) obtain h where h: "u64_from_hex (snd e) = Some h" "b = to_le_bytes 4 (fst e) @ to_le_bytes 8 h"
    by (cases e) (auto simp: encode_entry_def try_bind_Inr_iff)
  have "from_le_bytes (to_le_bytes 4 (fst e)) = fst e" "from_le_bytes (to_le_bytes 8 h) = h"
    using assms(2) u64_from_hex_less [OF h(1)] by (simp_all add: from_to_le_bytes)
  with h show ?thesis by (simp add: decode_entry_def)
qed

lemma decoded_entries:
  "list_all2 (\<lambda>e x. length x = n \<and> g x = f e) m bs \<Longrightarrow>
     (\<forall>x \<in> set bs. length x = n) \<and> length bs = length m \<and> map g bs = map f m"
  by (induction rule: list_all2_induct) auto

lemma decode_encoded:
  assumes "bt_inv m" "\<forall>e \<in> set m. fst e < 2 ^ 32" "encode_sidecar m = Inr b"
  shows "decode_sidecar b = Inr (normal m)"
proof -
  from assms(3) obtain bs where bs: "try_map encode_entry m = Inr bs" "length m < 2 ^ 32"
    "b = SIDECAR_MAGIC @ [SIDECAR_FORMAT] @ to_le_bytes 4 (length m) @ concat bs"
    by (auto simp: encode_sidecar_def try_bind_Inr_iff split: if_splits)
  have "list_all2 (\<lambda>e x. encode_entry e = Inr x) m bs" using bs(1) by (simp only: try_map_Inr_iff)
  then have "list_all2 (\<lambda>e x. length x = 12 \<and> decode_entry x = (fst e, show_hex 16 (the (u64_from_hex (snd e))))) m bs"
    by (rule list.rel_mono_strong) (use assms(2) decode_encoded_entry in blast)
  from decoded_entries [OF this] have l: "\<forall>x \<in> set bs. length x = 12" "length bs = length m" "map decode_entry bs = normal m"
    by (simp_all add: normal_def case_prod_beta)
  have body: "length (concat bs) = length m * 12" using sum_list_const [OF l(1)] l(2) by simp
  have "from_le_bytes (to_le_bytes 4 (length m)) = length m" using bs(2) by (intro from_to_le_bytes) simp
  then have "decode_sidecar b = Inr (bt_extend [] (normal m))"
    using body chunks_exact_concat [OF l(1)] unfolding bs(3) l(3) [symmetric]
    by (simp add: decode_sidecar_def SIDECAR_MAGIC_def Let_def del: length_concat)
  moreover have "bt_inv (normal m)" using assms(1) by (simp add: bt_inv_def normal_def case_prod_beta comp_def)
  ultimately show ?thesis by (simp add: bt_collect_id)
qed

lemma decode_sidecar_inv: "decode_sidecar b = Inr m \<Longrightarrow> bt_inv m"
  by (auto simp: decode_sidecar_def Let_def bt_inv_def [of "[]"] split: if_splits)

lemma check_digest_inv: "check_digest sha d b = Inr m \<Longrightarrow> bt_inv m"
  by (auto simp: check_digest_def dest: decode_sidecar_inv split: if_splits)

lemma read_sidecar_inv:
  assumes "read_sidecar sha rt bs d st = (Inr m, st')"
  shows "bt_inv m"
proof (cases rt)
  case (Inl e)
  with assms show ?thesis by (simp add: read_sidecar_def io_bind_def lift_def)
next
  case (Inr r)
  show ?thesis
  proof (cases "open_fault st None")
    case (Some e)
    with assms Inr show ?thesis by (simp add: read_sidecar_def io_bind_def lift_def open_store_def)
  next
    case None
    with assms Inr show ?thesis
      by (cases "read_one_all st (sidecar_path r d)"; cases "read_sidecar_through_bases st bs d")
        (auto simp: read_sidecar_def io_bind_def lift_def open_store_def Let_def dest: check_digest_inv)
  qed
qed

lemma bt_inv_Nil [simp]: "bt_inv []"
  by (simp add: bt_inv_def)

lemma stored_inv:
  assumes "json_laws ops" "stored_signatures_of ops ds column st = (Present m, st')"
  shows "bt_inv m"
proof (cases "field_meta ops ds column SOURCE_SIGNATURE_META_KEY")
  case None
  with assms(2) show ?thesis by (simp add: stored_signatures_of_def)
next
  case (Some encoded)
  show ?thesis
  proof (cases "strip_prefix SIDECAR_REF encoded")
    case None
    with Some assms show ?thesis by (auto simp: stored_signatures_of_def json_laws_def split: sum.splits)
  next
    case (Some digest)
    with \<open>field_meta ops ds column SOURCE_SIGNATURE_META_KEY = Some encoded\<close> assms(2) show ?thesis
      by (auto simp: stored_signatures_of_def dest: read_sidecar_inv split: prod.splits sum.splits)
  qed
qed

text \<open>What was stamped is what is read, as long as the metadata and the object stay.\<close>

lemma write_sidecar_stored:
  assumes "bt_inv m" "\<forall>e \<in> set m. fst e < 2 ^ 32" "write_sidecar sha root m st = (Inr r, st')"
  obtains rt b where "root = Inr rt" "r = SIDECAR_REF @ digest_of sha b"
    "objects st' (sidecar_path rt (digest_of sha b)) = Some b" "decode_sidecar b = Inr (normal m)"
proof -
  from assms(3) obtain rt b where b: "encode_sidecar m = Inr b" "root = Inr rt"
    "put st (sidecar_path rt (digest_of sha b)) b = Inr st'" "r = SIDECAR_REF @ digest_of sha b"
    by (auto simp: write_sidecar_def io_bind_Inr_iff lift_Inr_iff Let_def put_io_Inr_iff open_store_def split: option.splits)
  with that decode_encoded [OF assms(1,2) b(1)] show ?thesis by (auto simp: put_def split: option.splits)
qed

definition no_faults :: "object_store \<Rightarrow> bool" where
  "no_faults st = (open_fault st = (\<lambda>_. None) \<and> read_fault st = (\<lambda>_. None))"

text \<open>A later state of the table keeps the stamp of an earlier one: the column's metadata, the root, and the
  sidecars.\<close>

definition keeps_stamp :: "fresh_ops \<Rightarrow> string \<Rightarrow> fdataset \<Rightarrow> object_store \<Rightarrow> fdataset \<Rightarrow> object_store \<Rightarrow> bool" where
  "keeps_stamp ops column ds st ds' st' =
     (field_meta ops ds' column = field_meta ops ds column \<and> main_root ops ds' = main_root ops ds
      \<and> no_faults st' \<and> (\<forall>p b. objects st p = Some b \<longrightarrow> objects st' p = Some b))"

lemma written_map:
  assumes laws: "json_laws ops" "commit_laws ops" and w: "write_signatures ops ds column dv entries st = (Inr ds', st')"
    and e: "map_of (rev entries) i = Some s" "i \<in> set (fragment_ids ds)" and k: "keeps_stamp ops column ds' st' ds2 st2"
  shows "\<exists>m. stored_signatures_of ops ds2 column st2 = (Present m, st2)
             \<and> map_of m i = Some (show_hex 16 (the (u64_from_hex s)))
             \<and> field_meta ops ds2 column DEFINITION_VERSION_META_KEY = Some dv"
proof -
  obtain stored st1 where s0: "stored_signatures_of ops ds column st = (stored, st1)" by (metis surj_pair)
  define before where "before = (case stored of Present m \<Rightarrow> m | _ \<Rightarrow> [])"
  define merged where "merged = filter (\<lambda>e. fst e \<in> set (fragment_ids ds)) (bt_extend before entries)"
  have "bt_inv before" using stored_inv [OF laws(1), of ds column st] s0 unfolding before_def
    by (cases stored) auto
  then have ext: "bt_inv (bt_extend before entries)" by (rule bt_extend_inv)
  then have inv: "bt_inv merged" unfolding merged_def by (rule bt_filter_inv)
  have ids: "\<forall>e \<in> set merged. fst e < 2 ^ 32" by (auto simp: merged_def fragment_ids_def as_u32_def)
  have lk: "map_of merged i = Some s"
    using map_of_filter_distinct [OF bt_inv_distinct [OF ext], of "\<lambda>k v. k \<in> set (fragment_ids ds)" i] e
    by (simp add: merged_def bt_extend_lookup)
  then have "merged \<noteq> []" by auto
  with w s0 obtain encoded where enc: "write_sidecar (sha256 ops) (main_root ops ds) merged st1 = (Inr encoded, st')"
    "commit_metadata ops ds column [(SOURCE_SIGNATURE_META_KEY, encoded), (DEFINITION_VERSION_META_KEY, dv),
              (RECORDED_AT_VERSION_META_KEY, show_nat (fd_version ds))] = Inr ds'"
    by (auto simp: write_signatures_def Let_def io_bind_Inr_iff lift_Inr_iff merged_def before_def)
  have keys: "distinct [SOURCE_SIGNATURE_META_KEY, DEFINITION_VERSION_META_KEY, RECORDED_AT_VERSION_META_KEY]"
    by (simp add: SOURCE_SIGNATURE_META_KEY_def DEFINITION_VERSION_META_KEY_def RECORDED_AT_VERSION_META_KEY_def)
  with laws(2) enc(2) have md: "main_root ops ds' = main_root ops ds"
    "field_meta ops ds' column SOURCE_SIGNATURE_META_KEY = Some encoded"
    "field_meta ops ds' column DEFINITION_VERSION_META_KEY = Some dv"
    unfolding commit_laws_def by fastforce+
  obtain rt b where b: "main_root ops ds = Inr rt" "encoded = SIDECAR_REF @ digest_of (sha256 ops) b"
    "objects st' (sidecar_path rt (digest_of (sha256 ops) b)) = Some b" "decode_sidecar b = Inr (normal merged)"
    by (rule write_sidecar_stored [OF inv ids enc(1)])
  have "read_sidecar (sha256 ops) (Inr rt) (fd_bases ds2) (digest_of (sha256 ops) b) st2 = (Inr (normal merged), st2)"
    using k b by (subst read_sidecar_own [where b = b]) (auto simp: keeps_stamp_def no_faults_def check_digest_def)
  then have "stored_signatures_of ops ds2 column st2 = (Present (normal merged), st2)"
    using k md b by (simp add: stored_signatures_of_def keeps_stamp_def)
  with lk k md show ?thesis by (auto simp: normal_lookup keeps_stamp_def)
qed

section \<open>Recording\<close>

lemma map_of_rev_unique:
  assumes "(i, s) \<in> set es" and "\<And>t. (i, t) \<in> set es \<Longrightarrow> t = s"
  shows "map_of (rev es) i = Some s"
proof -
  have m: "(i, s) \<in> set (rev es)" using assms(1) by simp
  obtain t where t: "map_of (rev es) i = Some t" using weak_map_of_SomeI [OF m] by blast
  then have "(i, t) \<in> set (rev es)" by (rule map_of_SomeD)
  with assms(2) t show ?thesis by simp
qed

lemma signed_id: "signed ops ds inputs i s \<Longrightarrow> i \<in> set (fragment_ids ds)"
  by (auto simp: signed_def fragment_ids_def)

lemma recorded_entry:
  assumes r: "record_freshness ops latest pinned column dv inputs computed st = (Inr (rec, latest'), st')"
    and c: "map_of (rev computed) i = Some s" and s: "signed ops latest inputs i s" and d: "distinct (fragment_ids latest)"
  shows "\<exists>verified st1. write_signatures ops latest column dv verified st1 = (Inr latest', st')
           \<and> map_of (rev verified) i = Some s"
proof -
  obtain stored st1 where st1: "stored_signatures_of ops latest column st = (stored, st1)" by (metis surj_pair)
  obtain base where r1: "(let entries = bt_extend base computed in
      if entries = [] \<and> stored \<noteq> Absent then lift (Inr (\<lparr>rec_version = None, rec_recorded = 0, rec_moved = 0\<rparr>, latest))
      else io_bind (lift (signatures_for ops latest (map fst entries) inputs)) (\<lambda>current.
           let verified = filter (\<lambda>e. map_of current (fst e) = Some (snd e)) entries in
           io_bind (write_signatures ops latest column dv verified) (\<lambda>latest'.
           lift (Inr (\<lparr>rec_version = Some (fd_version latest'), rec_recorded = length verified,
                       rec_moved = length entries - length verified\<rparr>, latest'))))) st1 = (Inr (rec, latest'), st')"
    using r unfolding record_freshness_def st1 prod.case io_bind_Inr_iff lift_Inr_iff by blast
  let ?es = "bt_extend base computed"
  have e: "map_of ?es i = Some s" using c by (simp add: bt_extend_lookup)
  then have ne: "?es \<noteq> []" "(i, s) \<in> set ?es" by (auto dest: map_of_SomeD)
  with r1 obtain current where cur: "signatures_for ops latest (map fst ?es) inputs = Inr current"
    "write_signatures ops latest column dv (filter (\<lambda>e. map_of current (fst e) = Some (snd e)) ?es) st1 = (Inr latest', st')"
    by (auto simp: Let_def io_bind_Inr_iff lift_Inr_iff)
  have "map_of current i = Some s"
    using signatures_for_lookup [OF cur(1) d] s ne(2) by force
  then have "map_of (rev (filter (\<lambda>e. map_of current (fst e) = Some (snd e)) ?es)) i = Some s"
    using ne(2) by (intro map_of_rev_unique) auto
  with cur(2) show ?thesis by blast
qed

section \<open>Planning\<close>

lemma staleness_dirty:
  assumes "staleness_from ops ds column inputs stored = Inr plan"
  obtains inh where "inh = [] \<or> carried_forward ops ds column stored inputs = Inr inh" "\<not> recompute_all plan"
    "\<And>i. i \<in> dirty plan \<longleftrightarrow> (\<exists>x. signed ops ds inputs i x
        \<and> (case map_of stored i of Some r \<Rightarrow> Some r | None \<Rightarrow> map_of inh i) \<noteq> Some x)"
proof -
  from assms obtain inh b current where p: "(if list_ex (\<lambda>i. map_of stored i = None) (fragment_ids ds)
               then carried_forward ops ds column stored inputs else Inr []) = Inr inh" "bases_of ops ds = Inr b"
    "try_map (\<lambda>fr. try_bind (fragment_input_signature ops b fr inputs) (\<lambda>s. Inr (as_u32 (fr_id fr), s)))
       (fd_fragments ds) = Inr current"
    "recompute_all plan = False"
    "dirty plan = set (map fst (filter (\<lambda>(i, s). (case map_of stored i of Some r \<Rightarrow> Some r | None \<Rightarrow> map_of inh i) \<noteq> Some s) current))"
    by (auto simp: staleness_from_def try_bind_Inr_iff Let_def)
  have "(i, x) \<in> set current \<longleftrightarrow> signed ops ds inputs i x" for i x
    using entries_of_fragments(2) [OF p(3)] p(2) by (auto simp: signed_def)
  then have "i \<in> dirty plan \<longleftrightarrow> (\<exists>x. signed ops ds inputs i x
        \<and> (case map_of stored i of Some r \<Rightarrow> Some r | None \<Rightarrow> map_of inh i) \<noteq> Some x)" for i
    unfolding p(5) by (force simp: image_iff)
  with that [of inh] p(1,4) show ?thesis by (auto split: if_splits)
qed

lemma staleness_present:
  assumes "stored_signatures_of ops ds column st = (Present stored, st1)"
    and "staleness_against ops ds column dv inputs st = (Inr plan, st2)" "\<not> recompute_all plan"
  shows "staleness_from ops ds column inputs stored = Inr plan"
  using assms by (auto simp: staleness_against_def default_plan_def split: option.splits if_splits)

section \<open>Lineage\<close>

text \<open>
  When a fragment's signature counts as the one its values were computed from: it was recorded, or the fragment was
  produced by a compaction since the stamp all of whose sources were, just before it, in that state or
  appended since the stamp and not touched after. In the second case the rows of the source are among those
  in which no product of the compaction holds a value of the column.
\<close>

definition fresh_append :: "fresh_ops \<Rightarrow> fdataset \<Rightarrow> input_fields \<Rightarrow> nat \<Rightarrow> nat \<Rightarrow> nat \<Rightarrow> string \<Rightarrow> bool" where
  "fresh_append ops ds inputs lo v c t =
     (\<exists>a at before. lo < a \<and> a < v \<and> step_at ops ds a = Inr (Some AppendStep)
        \<and> checkout ops ds a = Inr at \<and> signature_of ops at c inputs = Inr (Some t)
        \<and> checkout ops ds (a - 1) = Inr before \<and> signature_of ops before c inputs = Inr None)"

definition rows_before :: "(nat \<times> string option \<times> nat) list \<Rightarrow> nat \<Rightarrow> nat" where
  "rows_before sources k = sum_list (map (\<lambda>(c, cur, live). live) (take k sources))"

inductive justified :: "fresh_ops \<Rightarrow> fdataset \<Rightarrow> string \<Rightarrow> input_fields \<Rightarrow> signature_map \<Rightarrow> nat \<Rightarrow> nat \<Rightarrow> nat \<Rightarrow> string \<Rightarrow> bool"
  for ops ds column inputs stored lo hi where
  recorded: "map_of stored i = Some s \<Longrightarrow> justified ops ds column inputs stored lo hi i s"
| compacted: "lo < v \<Longrightarrow> v \<le> hi \<Longrightarrow> step_at ops ds v = Inr (Some (Compaction cps)) \<Longrightarrow> (consumed, produced) \<in> set cps \<Longrightarrow>
     consumed \<noteq> [] \<Longrightarrow> checkout ops ds (v - 1) = Inr before \<Longrightarrow> checkout ops ds v = Inr after \<Longrightarrow>
     i \<in> set produced \<Longrightarrow> signature_of ops after i inputs = Inr (Some s) \<Longrightarrow>
     gather_sources ops before consumed inputs = Inr sources \<Longrightarrow>
     unfilled ops after column appended produced 0 = Inr True \<Longrightarrow>
     (\<And>k c cur live. k < length sources \<Longrightarrow> sources ! k = (c, cur, live) \<Longrightarrow>
        \<exists>t. cur = Some t
          \<and> (justified ops ds column inputs stored lo hi c t
             \<or> fresh_append ops ds inputs lo v c t
               \<and> (rows_before sources k, rows_before sources k + live) \<in> set appended)) \<Longrightarrow>
     justified ops ds column inputs stored lo hi i s"

lemma born_untouched_True:
  "born_untouched ops ds vs i c inputs = Inr True \<Longrightarrow>
     \<exists>a at before. a \<in> set vs \<and> checkout ops ds a = Inr at \<and> signature_of ops at i inputs = Inr (Some c)
        \<and> checkout ops ds (a - 1) = Inr before \<and> signature_of ops before i inputs = Inr None"
proof (induction vs)
  case (Cons v vs)
  from Cons.prems obtain at born where at: "checkout ops ds v = Inr at" "signature_of ops at i inputs = Inr born"
    by (auto simp: try_bind_Inr_iff)
  show ?case
  proof (cases born)
    case None
    with Cons at show ?thesis by auto
  next
    case (Some b)
    with Cons.prems at obtain before earlier where bf: "checkout ops ds (v - 1) = Inr before"
      "signature_of ops before i inputs = Inr earlier" by (auto simp: try_bind_Inr_iff)
    with Cons at Some show ?thesis by (cases earlier) auto
  qed
qed simp

lemma rows_before_Cons [simp]:
  "rows_before sources 0 = 0" "rows_before ((c, cur, live) # sources) (Suc k) = live + rows_before sources k"
  by (simp_all add: rows_before_def)

lemma classify_fresh:
  "classify ops ds fresh appends inputs sources off app = Inr (Some r) \<Longrightarrow>
     set app \<subseteq> set r
     \<and> (\<forall>k c cur live. k < length sources \<and> sources ! k = (c, cur, live) \<longrightarrow>
          (\<exists>t. cur = Some t \<and> (map_of fresh c = Some t
             \<or> born_untouched ops ds (rev appends) c t inputs = Inr True
               \<and> (off + rows_before sources k, off + rows_before sources k + live) \<in> set r)))"
proof (induction sources arbitrary: off app)
  case (Cons a sources)
  obtain i current l where a: "a = (i, current, l)" by (metis prod_cases3)
  show ?case
  proof (cases "current \<noteq> None \<and> map_of fresh i = current")
    case True
    with Cons.prems a have "classify ops ds fresh appends inputs sources (off + l) app = Inr (Some r)" by simp
    from Cons.IH [OF this] True a show ?thesis by (auto simp: nth_Cons' add.assoc gr0_conv_Suc)
  next
    case False
    with Cons.prems(1) a have u: "appended_untouched ops ds appends i current inputs = Inr True"
      "classify ops ds fresh appends inputs sources (off + l) (app @ [(off, off + l)]) = Inr (Some r)"
      by (auto simp: try_bind_Inr_iff split: if_splits)
    then obtain t where "current = Some t" "born_untouched ops ds (rev appends) i t inputs = Inr True"
      by (auto simp: appended_untouched_def split: option.splits)
    with Cons.IH [OF u(2)] a show ?thesis by (auto simp: nth_Cons' add.assoc gr0_conv_Suc)
  qed
qed simp

lemma record_products_entries:
  "record_products ops after inputs produced (fresh, inh) = Inr (fresh', inh') \<Longrightarrow>
     (map_of fresh' i = Some s \<longrightarrow> map_of fresh i = Some s \<or> (i \<in> set produced \<and> signature_of ops after i inputs = Inr (Some s)))
     \<and> (map_of inh' i = Some s \<longrightarrow> map_of inh i = Some s \<or> (i \<in> set produced \<and> signature_of ops after i inputs = Inr (Some s)))"
proof (induction produced arbitrary: fresh inh)
  case (Cons j produced)
  from Cons.prems obtain o' where o: "signature_of ops after j inputs = Inr o'"
    "record_products ops after inputs produced
       (case o' of None \<Rightarrow> (fresh, inh) | Some sig \<Rightarrow> (bt_insert j sig fresh, bt_insert j sig inh)) = Inr (fresh', inh')"
    by (auto simp: try_bind_Inr_iff)
  show ?case
  proof (cases o')
    case None
    with Cons.IH [of fresh inh] o show ?thesis by auto
  next
    case (Some sig)
    with Cons.IH [of "bt_insert j sig fresh" "bt_insert j sig inh"] o show ?thesis by (auto split: if_splits)
  qed
qed simp

text \<open>What the loop keeps: every entry of both maps is justified, and the noted versions are appends since the
  stamp.\<close>

definition maps_ok :: "fresh_ops \<Rightarrow> fdataset \<Rightarrow> string \<Rightarrow> input_fields \<Rightarrow> signature_map \<Rightarrow> nat \<Rightarrow> nat \<Rightarrow>
    signature_map \<times> signature_map \<Rightarrow> bool" where
  "maps_ok ops ds column inputs stored lo hi maps =
     (\<forall>i s. map_of (fst maps) i = Some s \<or> map_of (snd maps) i = Some s \<longrightarrow> justified ops ds column inputs stored lo hi i s)"

definition appends_ok :: "fresh_ops \<Rightarrow> fdataset \<Rightarrow> nat \<Rightarrow> nat \<Rightarrow> nat list \<Rightarrow> bool" where
  "appends_ok ops ds lo v appends = (\<forall>a \<in> set appends. lo < a \<and> a < v \<and> step_at ops ds a = Inr (Some AppendStep))"

lemma follow_compaction_ok:
  assumes ok: "maps_ok ops ds column inputs stored lo hi maps" "appends_ok ops ds lo v appends"
    and v: "lo < v" "v \<le> hi" "step_at ops ds v = Inr (Some (Compaction cps))" "cp \<in> set cps"
    and f: "follow_compaction ops ds column inputs appends v cp maps = Inr maps'"
  shows "maps_ok ops ds column inputs stored lo hi maps'"
proof (cases "maps' = maps")
  case False
  obtain consumed produced where cp: "cp = (consumed, produced)" by (cases cp)
  from f False obtain before sources appended after where s: "checkout ops ds (v - 1) = Inr before"
    "gather_sources ops before consumed inputs = Inr sources" "consumed \<noteq> []"
    "classify ops ds (fst maps) appends inputs sources 0 [] = Inr (Some appended)" "checkout ops ds v = Inr after"
    "unfilled ops after column appended produced 0 = Inr True"
    "record_products ops after inputs produced maps = Inr maps'"
    by (auto simp: follow_compaction_def cp try_bind_Inr_iff split: if_splits option.splits)
  have src: "\<exists>t. cur = Some t \<and> (justified ops ds column inputs stored lo hi c t
        \<or> fresh_append ops ds inputs lo v c t \<and> (rows_before sources k, rows_before sources k + live) \<in> set appended)"
    if k: "k < length sources" "sources ! k = (c, cur, live)" for k c cur live
  proof -
    from classify_fresh [OF s(4), THEN conjunct2, rule_format, of k c cur live] k obtain t where t: "cur = Some t"
      "map_of (fst maps) c = Some t \<or> born_untouched ops ds (rev appends) c t inputs = Inr True
          \<and> (rows_before sources k, rows_before sources k + live) \<in> set appended" by auto
    show ?thesis
    proof (cases "map_of (fst maps) c = Some t")
      case True
      with ok(1) t(1) show ?thesis by (simp add: maps_ok_def)
    next
      case False
      with t(2) born_untouched_True [of ops ds "rev appends" c t inputs] obtain a at bf where
        "a \<in> set appends" "checkout ops ds a = Inr at" "signature_of ops at c inputs = Inr (Some t)"
        "checkout ops ds (a - 1) = Inr bf" "signature_of ops bf c inputs = Inr None" by auto
      with ok(2) have "fresh_append ops ds inputs lo v c t" unfolding appends_ok_def fresh_append_def by blast
      with False t show ?thesis by blast
    qed
  qed
  have "justified ops ds column inputs stored lo hi i x" if "map_of (fst maps') i = Some x \<or> map_of (snd maps') i = Some x" for i x
  proof -
    have "map_of (fst maps) i = Some x \<or> map_of (snd maps) i = Some x
        \<or> (i \<in> set produced \<and> signature_of ops after i inputs = Inr (Some x))"
      using record_products_entries [of ops after inputs produced "fst maps" "snd maps" "fst maps'" "snd maps'" i x] s(7) that
      by auto
    moreover have "justified ops ds column inputs stored lo hi i x" if "i \<in> set produced" "signature_of ops after i inputs = Inr (Some x)"
      by (rule justified.compacted [OF v(1-3) v(4) [unfolded cp] s(3,1,5) that s(2,6) src])
    ultimately show ?thesis using ok(1) by (auto simp: maps_ok_def)
  qed
  then show ?thesis by (simp add: maps_ok_def)
qed (use ok in simp)

lemma follow_compactions_ok:
  assumes "maps_ok ops ds column inputs stored lo hi maps" "appends_ok ops ds lo v appends"
    and "lo < v" "v \<le> hi" "step_at ops ds v = Inr (Some (Compaction cps))" "set xs \<subseteq> set cps"
    and "follow_compactions ops ds column inputs appends v xs maps = Inr maps'"
  shows "maps_ok ops ds column inputs stored lo hi maps'"
  using assms(1,6,7)
proof (induction xs arbitrary: maps)
  case (Cons cp xs)
  then obtain m where m: "follow_compaction ops ds column inputs appends v cp maps = Inr m"
    "follow_compactions ops ds column inputs appends v xs m = Inr maps'" by (auto simp: try_bind_Inr_iff)
  have "maps_ok ops ds column inputs stored lo hi m"
    using follow_compaction_ok [OF Cons.prems(1) assms(2-5) _ m(1)] Cons.prems(2) by simp
  with Cons m(2) show ?case by simp
qed simp

lemma follow_versions_ok:
  assumes "maps_ok ops ds column inputs stored lo hi maps" "appends_ok ops ds lo v appends" "lo < v"
    and "follow_versions ops ds column inputs appends [v..<Suc hi] maps = Inr maps'"
  shows "maps_ok ops ds column inputs stored lo hi maps'"
  using assms
proof (induction "Suc hi - v" arbitrary: v appends maps)
  case (Suc k)
  then have split: "[v..<Suc hi] = v # [Suc v..<Suc hi]" "v \<le> hi" by (auto simp: upt_conv_Cons)
  have mono: "appends_ok ops ds lo (Suc v) appends" using Suc.prems(2) by (auto simp: appends_ok_def less_SucI)
  from Suc.prems(4) split(1) obtain st where st: "step_at ops ds v = Inr st" by (auto simp: try_bind_Inr_iff)
  note IH = Suc.hyps(1) [of "Suc v"]
  show ?case
  proof (cases st)
    case None
    with IH [OF _ Suc.prems(1) mono] Suc.prems Suc.hyps(2) split st show ?thesis by simp
  next
    case (Some step)
    show ?thesis
    proof (cases step)
      case AppendStep
      have "appends_ok ops ds lo (Suc v) (appends @ [v])" using mono Suc.prems(3) st Some AppendStep by (simp add: appends_ok_def)
      with IH [of maps "appends @ [v]"] Suc.prems Suc.hyps(2) split st Some AppendStep show ?thesis by simp
    next
      case (Compaction cps)
      with Suc.prems(4) split st Some obtain m where m: "follow_compactions ops ds column inputs appends v cps maps = Inr m"
        "follow_versions ops ds column inputs appends [Suc v..<Suc hi] m = Inr maps'" by (auto simp: try_bind_Inr_iff)
      have "maps_ok ops ds column inputs stored lo hi m"
        using follow_compactions_ok [OF Suc.prems(1,2,3) split(2) _ subset_refl m(1)] st Some Compaction by simp
      with IH [OF _ _ mono] Suc.prems(3) Suc.hyps(2) m(2) show ?thesis by simp
    qed
  qed
qed simp

definition recorded_at :: "fresh_ops \<Rightarrow> fdataset \<Rightarrow> string \<Rightarrow> nat" where
  "recorded_at ops ds column =
     (case field_meta ops ds column RECORDED_AT_VERSION_META_KEY of
        None \<Rightarrow> 0 | Some raw \<Rightarrow> (case parse_uint (2 ^ 64 - 1) raw of None \<Rightarrow> 0 | Some v \<Rightarrow> v))"

lemma carried_forward_justified:
  assumes "carried_forward ops ds column stored inputs = Inr inh" "map_of inh i = Some s"
  shows "justified ops ds column inputs stored (recorded_at ops ds column) (fd_version ds) i s"
proof -
  let ?lo = "recorded_at ops ds column"
  from assms obtain fresh where f: "follow_versions ops ds column inputs [] [Suc ?lo..<Suc (fd_version ds)] (stored, []) = Inr (fresh, inh)"
    by (auto simp: carried_forward_def recorded_at_def Let_def try_bind_Inr_iff simp del: upt_Suc
        split: option.splits if_splits)
  have "maps_ok ops ds column inputs stored ?lo (fd_version ds) (stored, [])"
    by (auto simp: maps_ok_def intro: justified.recorded)
  moreover have "appends_ok ops ds ?lo (Suc ?lo) []" by (simp add: appends_ok_def)
  ultimately have "maps_ok ops ds column inputs stored ?lo (fd_version ds) (fresh, inh)"
    using follow_versions_ok [OF _ _ _ f] by simp
  with assms(2) show ?thesis by (simp add: maps_ok_def)
qed

section \<open>Pruning\<close>

definition referenced_by :: "fresh_ops \<Rightarrow> fdataset \<Rightarrow> string \<Rightarrow> bool" where
  "referenced_by ops ds d =
     (\<exists>vs v at. versions ops ds = Inr vs \<and> v \<in> set vs \<and> checkout ops ds v = Inr at \<and> d \<in> set (digest_refs at))"

definition referenced :: "fresh_ops \<Rightarrow> fdataset \<Rightarrow> string \<Rightarrow> bool" where
  "referenced ops ds d =
     (referenced_by ops ds d
      \<or> (\<exists>bs b br. list_branches ops ds = Inr bs \<and> b \<in> set bs \<and> checkout_named ops ds b = Inr br \<and> referenced_by ops br d))"

lemma try_map_in: "try_map f xs = Inr ys \<Longrightarrow> x \<in> set xs \<Longrightarrow> \<exists>y \<in> set ys. f x = Inr y"
  by (induction xs arbitrary: ys) (auto simp: try_bind_Inr_iff)

lemma referenced_digests_complete:
  assumes "referenced_digests ops ds = Inr refs" "referenced_by ops ds d"
  shows "d \<in> set refs"
proof -
  from assms(1) obtain vs rs where vs: "versions ops ds = Inr vs" "refs = concat rs"
    "try_map (\<lambda>v. try_bind (checkout ops ds v) (\<lambda>at. Inr (digest_refs at))) vs = Inr rs"
    by (auto simp: referenced_digests_def try_bind_Inr_iff)
  from assms(2) vs(1) obtain v at where v: "v \<in> set vs" "checkout ops ds v = Inr at" "d \<in> set (digest_refs at)"
    by (auto simp: referenced_by_def)
  from try_map_in [OF vs(3) v(1)] v(2,3) vs(2) show ?thesis by auto
qed

lemma sidecar_path_inject [simp]: "sidecar_path r d = sidecar_path r d' \<longleftrightarrow> d = d'"
  by (simp add: sidecar_path_def)

lemma remove_unreferenced_objects:
  "remove_unreferenced (Inr rt) refs ds n st = (r, st') \<Longrightarrow>
     objects st' p = objects st p \<or> (\<exists>d \<in> set ds. d \<notin> set refs \<and> p = sidecar_path rt d \<and> objects st' p = None)"
proof (induction ds arbitrary: n st)
  case (Cons d ds)
  show ?case
  proof (cases "d \<in> set refs")
    case True
    with Cons show ?thesis by auto
  next
    case False
    show ?thesis
    proof (cases "delete st (sidecar_path rt d)")
      case (Inl e)
      with Cons.prems False show ?thesis by simp
    next
      case (Inr st1)
      then have o: "objects st1 = (objects st)(sidecar_path rt d := None)" by (auto simp: delete_def split: option.splits)
      from Cons.IH [of "n + 1" st1] Cons.prems False Inr o show ?thesis by (auto split: if_splits)
    qed
  qed
qed simp

lemma prune_sidecars_stages:
  assumes "(if fd_branch ds0 \<noteq> None then checkout_main ops ds0 else Inr ds0) = Inr ds" "main_root ops ds = Inr rt"
    and "prune_sidecars ops ds0 du st = (r, st')"
  shows "st' = st \<and> (\<forall>n names. r = Inr n \<longrightarrow> read_dir ops st (rt @ ''/'' @ SIDECAR_DIR) (\<not> du) = Inr names \<longrightarrow>
           List.map_filter digest_of_name names = []) \<or> (\<exists>names on_main bs on_branches.
      read_dir ops st (rt @ ''/'' @ SIDECAR_DIR) (\<not> du) = Inr names
      \<and> referenced_digests ops ds = Inr on_main \<and> list_branches ops ds = Inr bs
      \<and> try_map (\<lambda>b. try_bind (checkout_named ops ds b) (referenced_digests ops)) bs = Inr on_branches
      \<and> remove_unreferenced (Inr rt) (on_main @ concat on_branches) (List.map_filter digest_of_name names) 0 st = (r, st'))"
  using assms
  by (cases "open_fault st None"; cases "read_dir ops st (rt @ ''/'' @ SIDECAR_DIR) (\<not> du)";
      cases "referenced_digests ops ds"; cases "list_branches ops ds")
    (auto simp: prune_sidecars_def io_bind_def lift_def open_store_def Let_def split: sum.splits if_splits)

lemma all_referenced:
  assumes "referenced_digests ops ds = Inr on_main" "list_branches ops ds = Inr bs"
    and "try_map (\<lambda>b. try_bind (checkout_named ops ds b) (referenced_digests ops)) bs = Inr on_branches"
    and "referenced ops ds d"
  shows "d \<in> set (on_main @ concat on_branches)"
proof (cases "referenced_by ops ds d")
  case True
  with referenced_digests_complete [OF assms(1)] show ?thesis by simp
next
  case False
  with assms(2,4) obtain b br where b: "b \<in> set bs" "checkout_named ops ds b = Inr br" "referenced_by ops br d"
    by (auto simp: referenced_def)
  from try_map_in [OF assms(3) b(1)] b(2) obtain refs where "refs \<in> set on_branches" "referenced_digests ops br = Inr refs"
    by auto
  with referenced_digests_complete [OF _ b(3)] show ?thesis by auto
qed

lemma digest_of_name_Some_iff: "digest_of_name name = Some d \<longleftrightarrow> name = d @ ''.sig''"
proof -
  have "digest_of_name name = Some d \<longleftrightarrow> rev name = rev ''.sig'' @ rev d"
    by (auto simp: digest_of_name_def strip_prefix_Some_iff rev_swap)
  also have "\<dots> \<longleftrightarrow> name = d @ ''.sig''" by (metis rev_append rev_rev_ident)
  finally show ?thesis .
qed

lemma listed_name: "d \<in> set (List.map_filter digest_of_name names) \<longleftrightarrow> d @ ''.sig'' \<in> set names"
proof -
  have "d \<in> set (List.map_filter digest_of_name names) \<longleftrightarrow> (\<exists>n \<in> set names. digest_of_name n = Some d)"
    by (induction names) (auto split: option.splits)
  then show ?thesis by (simp add: digest_of_name_Some_iff)
qed

lemma try_map_out: "try_map f xs = Inr ys \<Longrightarrow> y \<in> set ys \<Longrightarrow> \<exists>x \<in> set xs. f x = Inr y"
  by (induction xs arbitrary: ys) (auto simp: try_bind_Inr_iff)

lemma referenced_digests_sound:
  assumes "referenced_digests ops ds = Inr refs" "d \<in> set refs"
  shows "referenced_by ops ds d"
proof -
  from assms obtain vs rs ds' where vs: "versions ops ds = Inr vs" "ds' \<in> set rs" "d \<in> set ds'"
    "try_map (\<lambda>v. try_bind (checkout ops ds v) (\<lambda>at. Inr (digest_refs at))) vs = Inr rs"
    by (auto simp: referenced_digests_def try_bind_Inr_iff)
  from try_map_out [OF vs(4,2)] vs(1,3) show ?thesis by (auto simp: referenced_by_def try_bind_Inr_iff)
qed

lemma all_referenced_sound:
  assumes "referenced_digests ops ds = Inr on_main" "list_branches ops ds = Inr bs"
    and "try_map (\<lambda>b. try_bind (checkout_named ops ds b) (referenced_digests ops)) bs = Inr on_branches"
    and "d \<in> set (on_main @ concat on_branches)"
  shows "referenced ops ds d"
proof (cases "d \<in> set on_main")
  case True
  with referenced_digests_sound [OF assms(1)] show ?thesis by (simp add: referenced_def)
next
  case False
  with assms(4) obtain refs where refs: "refs \<in> set on_branches" "d \<in> set refs" by auto
  from try_map_out [OF assms(3) refs(1)] obtain b br where "b \<in> set bs" "checkout_named ops ds b = Inr br"
    "referenced_digests ops br = Inr refs" by (auto simp: try_bind_Inr_iff)
  with referenced_digests_sound [OF _ refs(2)] assms(2) show ?thesis by (auto simp: referenced_def)
qed

lemma remove_unreferenced_all:
  "remove_unreferenced (Inr rt) refs ds n st = (Inr m, st') \<Longrightarrow> d \<in> set ds \<Longrightarrow> d \<notin> set refs \<Longrightarrow>
     objects st' (sidecar_path rt d) = None"
proof (induction ds arbitrary: n st)
  case (Cons e ds)
  show ?case
  proof (cases "e \<in> set refs")
    case True
    with Cons show ?thesis by auto
  next
    case False
    with Cons.prems(1) obtain st1 where st1: "delete st (sidecar_path rt e) = Inr st1"
      "remove_unreferenced (Inr rt) refs ds (n + 1) st1 = (Inr m, st')" by (auto split: sum.splits)
    then have "objects st1 (sidecar_path rt e) = None" by (auto simp: delete_def split: option.splits)
    with remove_unreferenced_objects [OF st1(2), of "sidecar_path rt e"] Cons.IH [OF st1(2)] Cons.prems(2,3) show ?thesis by auto
  qed
qed simp

section \<open>A concrete storage\<close>

text \<open>A table with an input column \<open>x\<close> and a computed column \<open>y\<close>. Version 5 holds the fragments 0 and 1, which the
  compaction of version 6 turns into fragment 2.\<close>

definition sample_fragment :: "nat \<Rightarrow> string \<Rightarrow> fragment" where
  "sample_fragment i path = \<lparr>fr_id = i, fr_files = [\<lparr>df_fields = [1], df_columns = [0], df_path = path, df_base = None\<rparr>],
     fr_overlays = [], fr_rows = Inr 10\<rparr>"

definition sample_table :: "nat \<Rightarrow> fragment list \<Rightarrow> (string \<times> string) list \<Rightarrow> fdataset" where
  "sample_table v frs md = \<lparr>fd_uri = ''m'', fd_bases = [], fd_version = v, fd_branch = None,
     fd_schema = [LField 1 ''x'' [] [], LField 2 ''y'' [] md], fd_fragments = frs\<rparr>"

definition sample_inputs :: input_fields where
  "sample_inputs = [([''x''], [1])]"

definition sample_stamp :: "(string \<times> string) list" where
  "sample_stamp = [(SOURCE_SIGNATURE_META_KEY, ''recorded''), (DEFINITION_VERSION_META_KEY, ''v1''), (RECORDED_AT_VERSION_META_KEY, ''5'')]"

definition sample_history :: "nat \<Rightarrow> fdataset" where
  "sample_history v =
     (if v \<le> 5 then sample_table 5 [sample_fragment 0 ''a'', sample_fragment 1 ''b''] sample_stamp
      else sample_table 6 [sample_fragment 2 ''c''] sample_stamp)"

definition add_meta :: "string \<Rightarrow> (string \<times> string) list \<Rightarrow> lance_field \<Rightarrow> lance_field" where
  "add_meta c kvs f = (if lf_name f = c then LField (lf_id f) (lf_name f) (lf_children f) (kvs @ lf_meta f) else f)"

definition sample_fresh :: fresh_ops where
  "sample_fresh =
     \<lparr>url_before_query = Inr, parse_field_path = (\<lambda>p. Inr [p]), schema_field = (\<lambda>fs n. List.find (\<lambda>f. lf_name f = n) fs),
      show_basis = (\<lambda>b. concat (map (\<lambda>(l, p, c). p) (ib_files b))), sha256 = (\<lambda>b. (sum_list b mod 256) # replicate 31 0),
      main_root = (\<lambda>ds. Inr ''r''), checkout = (\<lambda>ds v. Inr (sample_history v)), checkout_main = Inr,
      checkout_named = (\<lambda>ds b. Inr ds),
      read_transaction = (\<lambda>ds v. if v = 6
         then Transaction (RewriteOp [([sample_fragment 0 ''a'', sample_fragment 1 ''b''], [sample_fragment 9 ''c''])]) else NoTransaction),
      versions = (\<lambda>ds. Inr [5, 6]), list_branches = (\<lambda>ds. Inr []), scan_values = (\<lambda>ds fr c. Inr []),
      json_map = (\<lambda>s. if s = ''recorded'' then Inr [(0, ''1600000000000000''), (1, ''1700000000000000'')] else Inl malformed),
      read_dir = (\<lambda>st dir old. Inr [''1.sig'', ''2.sig'', ''notes'']),
      commit_metadata = (\<lambda>ds c kvs. if list_ex (\<lambda>f. lf_name f = c) (fd_schema ds)
         then Inr (ds\<lparr>fd_version := fd_version ds + 1, fd_schema := map (add_meta c kvs) (fd_schema ds)\<rparr>) else Inl malformed)\<rparr>"

definition sample_store :: "(string \<rightharpoonup> nat list) \<Rightarrow> object_store" where
  "sample_store obs = \<lparr>objects = obs, open_fault = (\<lambda>_. None), read_fault = (\<lambda>_. None), put_fault = (\<lambda>_. None),
     delete_fault = (\<lambda>_. None)\<rparr>"

lemma sample_sha_laws: "sha_laws sample_fresh"
  by (simp add: sha_laws_def sample_fresh_def list_all_iff)

lemma sample_json_laws: "json_laws sample_fresh"
  by (auto simp: json_laws_def sample_fresh_def bt_inv_def split: if_splits)

lemma find_add_meta:
  "List.find (\<lambda>f. lf_name f = c) (map (add_meta c kvs) fs) = map_option (add_meta c kvs) (List.find (\<lambda>f. lf_name f = c) fs)"
  by (induction fs) (auto simp: add_meta_def)

lemma sample_commit_laws: "commit_laws sample_fresh"
proof -
  have "\<exists>f. List.find (\<lambda>f. lf_name f = c) fs = Some f \<and> lf_name f = c" if "list_ex (\<lambda>f. lf_name f = c) fs" for c fs
    using that by (induction fs) auto
  then show ?thesis
    by (fastforce simp: commit_laws_def sample_fresh_def field_meta_def find_add_meta add_meta_def split: if_splits)
qed

lemma signedI:
  "bases_of ops ds = Inr b \<Longrightarrow> fr \<in> set (fd_fragments ds) \<Longrightarrow> as_u32 (fr_id fr) = i \<Longrightarrow>
   fragment_input_signature ops b fr inputs = Inr s \<Longrightarrow> signed ops ds inputs i s"
  by (auto simp: signed_def)

lemma sample_bases: "bases_of sample_fresh (sample_table v frs md) = Inr \<lparr>own = ''m/data'', registered = []\<rparr>"
  by (simp add: bases_of_def sample_table_def sample_fresh_def location_def trim_end_slashes_def)

lemma sample_signatures_of:
  "fragment_input_signature sample_fresh \<lparr>own = ''m/data'', registered = []\<rparr> (sample_fragment 0 ''a'') sample_inputs
     = Inr ''1600000000000000''"
  "fragment_input_signature sample_fresh \<lparr>own = ''m/data'', registered = []\<rparr> (sample_fragment 2 ''c'') sample_inputs
     = Inr ''1800000000000000''"
  "fragment_input_signature sample_fresh \<lparr>own = ''m/data'', registered = []\<rparr> (sample_fragment 0 ''z'') sample_inputs
     = Inr ''2f00000000000000''"
  by code_simp+

lemma sample_signed:
  "signed sample_fresh (sample_table v [sample_fragment 0 ''a''] md) sample_inputs 0 ''1600000000000000''"
  "signed sample_fresh (sample_table v [sample_fragment 2 ''c''] md) sample_inputs 2 ''1800000000000000''"
  "signed sample_fresh (sample_table v [sample_fragment 0 ''z''] md) sample_inputs 0 ''2f00000000000000''"
proof -
  have t: "fr \<in> set (fd_fragments (sample_table v [fr] md))" for fr by (simp add: sample_table_def)
  have i: "i < 2 ^ 32 \<Longrightarrow> as_u32 (fr_id (sample_fragment i p)) = i" for i p by (simp add: sample_fragment_def as_u32_def)
  show "signed sample_fresh (sample_table v [sample_fragment 0 ''a''] md) sample_inputs 0 ''1600000000000000''"
    by (rule signedI [OF sample_bases t i sample_signatures_of(1)]) simp
  show "signed sample_fresh (sample_table v [sample_fragment 2 ''c''] md) sample_inputs 2 ''1800000000000000''"
    by (rule signedI [OF sample_bases t i sample_signatures_of(2)]) simp
  show "signed sample_fresh (sample_table v [sample_fragment 0 ''z''] md) sample_inputs 0 ''2f00000000000000''"
    by (rule signedI [OF sample_bases t i sample_signatures_of(3)]) simp
qed

lemma sample_fresh_simps:
  "main_root sample_fresh ds = Inr ''r''"
  "field_meta sample_fresh (sample_table v frs md) ''y'' key = map_of md key"
  "commit_metadata sample_fresh (sample_table v frs md) ''y'' kvs = Inr (sample_table (v + 1) frs (kvs @ md))"
  "fragment_ids (sample_table v [sample_fragment 0 p] md) = [0]"
  by (simp_all add: sample_fresh_def field_meta_def sample_table_def add_meta_def fragment_ids_def sample_fragment_def as_u32_def)

definition sample_stored :: "(string \<times> string) list \<times> object_store" where
  "sample_stored =
     (let b = (case encode_sidecar [(0, ''1600000000000000'')] of Inr b \<Rightarrow> b | Inl e \<Rightarrow> []);
          d = digest_of (sha256 sample_fresh) b
      in ([(SOURCE_SIGNATURE_META_KEY, SIDECAR_REF @ d), (DEFINITION_VERSION_META_KEY, ''v1''), (RECORDED_AT_VERSION_META_KEY, show_nat 5)],
          sample_store [sidecar_path ''r'' d \<mapsto> b]))"

lemma sample_recorded:
  "record_freshness sample_fresh (sample_table 5 [sample_fragment 0 ''a''] []) None ''y'' ''v1'' sample_inputs
     [(0, ''1600000000000000'')] (sample_store Map.empty)
   = (Inr (\<lparr>rec_version = Some 6, rec_recorded = 1, rec_moved = 0\<rparr>, sample_table 6 [sample_fragment 0 ''a''] (fst sample_stored)),
      snd sample_stored)"
proof -
  let ?t = "sample_table 5 [sample_fragment 0 ''a''] []"
  have st: "stored_signatures_of sample_fresh ?t ''y'' st = (Absent, st)" for st
    by (simp add: stored_signatures_of_def sample_fresh_simps)
  have sg: "signatures_for sample_fresh ?t [0] sample_inputs = Inr [(0, ''1600000000000000'')]" by code_simp
  have "is_ok (encode_sidecar [(0, ''1600000000000000'')])" by code_simp
  then obtain b where b: "encode_sidecar [(0, ''1600000000000000'')] = Inr b" by (auto simp: is_ok_def split: sum.splits)
  have ws: "write_signatures sample_fresh ?t ''y'' ''v1'' [(0, ''1600000000000000'')] (sample_store Map.empty)
      = (Inr (sample_table 6 [sample_fragment 0 ''a''] (fst sample_stored)), snd sample_stored)"
    by (simp add: write_signatures_def st bt_extend_def sample_fresh_simps write_sidecar_def b io_bind_def lift_def
        open_store_def put_io_def put_def sample_store_def sample_stored_def Let_def)
       (simp add: sample_table_def)
  show ?thesis
    by (simp add: record_freshness_def st bt_extend_def io_bind_def lift_def sg ws Let_def) (simp add: sample_table_def)
qed

lemma sample_plan:
  assumes "stored_signatures_of sample_fresh (sample_table v [sample_fragment 0 ''z''] md) ''y'' st = (Present m, st)"
    "map_of m 0 \<noteq> None" "map_of md DEFINITION_VERSION_META_KEY = Some ''v1''"
  shows "is_ok (fst (staleness_against sample_fresh (sample_table v [sample_fragment 0 ''z''] md) ''y'' ''v1'' sample_inputs st))"
proof -
  have "fd_fragments (sample_table v [sample_fragment 0 ''z''] md) = [sample_fragment 0 ''z'']" by (simp add: sample_table_def)
  with assms show ?thesis
    by (auto simp: staleness_against_def staleness_from_def sample_fresh_simps sample_bases sample_signatures_of Let_def)
qed

lemma sample_stored_plan:
  "is_ok (fst (staleness_against sample_fresh (sample_table 7 [sample_fragment 0 ''z''] (fst sample_stored)) ''y'' ''v1'' sample_inputs
     (snd sample_stored)))"
proof -
  let ?t = "sample_table 5 [sample_fragment 0 ''a''] []"
  let ?ds2 = "sample_table 7 [sample_fragment 0 ''z''] (fst sample_stored)"
  have k: "keeps_stamp sample_fresh ''y'' (sample_table 6 [sample_fragment 0 ''a''] (fst sample_stored)) (snd sample_stored) ?ds2 (snd sample_stored)"
    by (simp add: keeps_stamp_def sample_fresh_simps fun_eq_iff no_faults_def sample_stored_def sample_store_def Let_def)
  obtain verified st1 where "write_signatures sample_fresh ?t ''y'' ''v1'' verified st1
      = (Inr (sample_table 6 [sample_fragment 0 ''a''] (fst sample_stored)), snd sample_stored)"
    "map_of (rev verified) 0 = Some ''1600000000000000''"
    using recorded_entry [OF sample_recorded _ sample_signed(1)] by (auto simp: sample_fresh_simps)
  from written_map [OF sample_json_laws sample_commit_laws this _ k] obtain m where
    "stored_signatures_of sample_fresh ?ds2 ''y'' (snd sample_stored) = (Present m, snd sample_stored)" "map_of m 0 \<noteq> None"
    "field_meta sample_fresh ?ds2 ''y'' DEFINITION_VERSION_META_KEY = Some ''v1''" by (auto simp: sample_fresh_simps)
  then show ?thesis by (intro sample_plan) (simp_all add: sample_fresh_simps)
qed

section \<open>Properties\<close>

text \<open>
  C5 (changes are detected). After a refresh has recorded a fragment with the signature its inputs had, a later plan on any
  state of the table that keeps the stamp reports the fragment stale exactly when the signature of its
  inputs differs from the recorded one.
\<close>
theorem recorded_change_detected:
  assumes "sha_laws ops" and "json_laws ops" and "commit_laws ops"
    and "record_freshness ops latest pinned column dv inputs computed st = (Inr (rec, latest'), st')"
    and "bt_inv computed" and "map_of computed i = Some s"
    and "signed ops latest inputs i s" and "distinct (fragment_ids latest)"
    and "keeps_stamp ops column latest' st' ds2 st2"
    and "staleness_against ops ds2 column dv inputs st2 = (Inr plan, st3)"
    and "signed ops ds2 inputs i x" and "distinct (fragment_ids ds2)"
  shows "is_dirty plan i \<longleftrightarrow> x \<noteq> s"
proof -
  have "map_of (rev computed) i = Some s"
    using assms(6) map_of_rev_distinct [OF bt_inv_distinct [OF assms(5)]] by simp
  from recorded_entry [OF assms(4) this assms(7,8)] obtain verified st1 where
    v: "write_signatures ops latest column dv verified st1 = (Inr latest', st')" "map_of (rev verified) i = Some s" by blast
  have "is_signature s" using assms(1,7) by (auto simp: signed_def intro: fragment_signature_form)
  with written_map [OF assms(2,3) v signed_id [OF assms(7)] assms(9)] obtain m where
    m: "stored_signatures_of ops ds2 column st2 = (Present m, st2)" "map_of m i = Some s"
      "field_meta ops ds2 column DEFINITION_VERSION_META_KEY = Some dv" by (auto simp: normal_signature)
  from assms(10) m(1,3) have "staleness_from ops ds2 column inputs m = Inr plan" by (simp add: staleness_against_def)
  then have "\<not> recompute_all plan" "i \<in> dirty plan \<longleftrightarrow> (\<exists>y. signed ops ds2 inputs i y \<and> Some s \<noteq> Some y)"
    using m(2) by (auto elim!: staleness_dirty)
  with assms(11) signed_unique [OF assms(12)] show ?thesis by (auto simp: is_dirty_def)
qed

theorem recorded_change_detected_witness:
  "record_freshness sample_fresh (sample_table 5 [sample_fragment 0 ''a''] []) None ''y'' ''v1'' sample_inputs
       [(0, ''1600000000000000'')] (sample_store Map.empty)
     = (Inr (\<lparr>rec_version = Some 6, rec_recorded = 1, rec_moved = 0\<rparr>, sample_table 6 [sample_fragment 0 ''a''] (fst sample_stored)),
        snd sample_stored)
   \<and> (\<exists>plan st3. staleness_against sample_fresh (sample_table 7 [sample_fragment 0 ''z''] (fst sample_stored)) ''y'' ''v1'' sample_inputs
         (snd sample_stored) = (Inr plan, st3) \<and> is_dirty plan 0)"
proof -
  let ?ds2 = "sample_table 7 [sample_fragment 0 ''z''] (fst sample_stored)"
  have k: "keeps_stamp sample_fresh ''y'' (sample_table 6 [sample_fragment 0 ''a''] (fst sample_stored)) (snd sample_stored) ?ds2 (snd sample_stored)"
    by (simp add: keeps_stamp_def sample_fresh_simps fun_eq_iff no_faults_def sample_stored_def sample_store_def Let_def)
  have d: "distinct (fragment_ids (sample_table v [sample_fragment 0 p] md))" for v p md by (simp add: sample_fresh_simps)
  have c: "bt_inv [(0::nat, ''1600000000000000'')]" "map_of [(0, ''1600000000000000'')] 0 = Some ''1600000000000000''"
    by (simp_all add: bt_inv_def)
  have "is_ok (fst (staleness_against sample_fresh ?ds2 ''y'' ''v1'' sample_inputs (snd sample_stored)))" by (rule sample_stored_plan)
  then obtain plan st3 where p: "staleness_against sample_fresh ?ds2 ''y'' ''v1'' sample_inputs (snd sample_stored) = (Inr plan, st3)"
    by (cases "staleness_against sample_fresh ?ds2 ''y'' ''v1'' sample_inputs (snd sample_stored)")
      (auto simp: is_ok_def split: sum.splits)
  from recorded_change_detected [OF sample_sha_laws sample_json_laws sample_commit_laws sample_recorded c sample_signed(1) d k p sample_signed(3) d]
  have "is_dirty plan 0" by simp
  with sample_recorded p show ?thesis by blast
qed


text \<open>
  C6 (clean fragments). With a readable stamp, a fragment the plan leaves clean has input data that the stamp recorded
  for it, or is the product of compactions since the stamp whose sources were recorded, or were appended and
  untouched and left no values of the column in the products.
\<close>
theorem clean_is_justified:
  assumes "stored_signatures_of ops ds column st = (Present stored, st1)"
    and "staleness_against ops ds column dv inputs st = (Inr plan, st2)" and "\<not> is_dirty plan i"
    and "signed ops ds inputs i x"
  shows "justified ops ds column inputs stored (recorded_at ops ds column) (fd_version ds) i x"
proof -
  from assms(3) have d: "\<not> recompute_all plan" "i \<notin> dirty plan" by (auto simp: is_dirty_def)
  obtain inh where inh: "inh = [] \<or> carried_forward ops ds column stored inputs = Inr inh"
    and k: "\<And>j. j \<in> dirty plan \<longleftrightarrow> (\<exists>x. signed ops ds inputs j x
        \<and> (case map_of stored j of Some r \<Rightarrow> Some r | None \<Rightarrow> map_of inh j) \<noteq> Some x)"
    using staleness_present [OF assms(1,2) d(1)] by (rule staleness_dirty) simp
  from k [of i] d(2) assms(4) have "(case map_of stored i of Some r \<Rightarrow> Some r | None \<Rightarrow> map_of inh i) = Some x" by blast
  then consider "map_of stored i = Some x" | "map_of inh i = Some x" by (auto split: option.splits)
  then show ?thesis
  proof cases
    case 1
    then show ?thesis by (rule justified.recorded)
  next
    case 2
    with inh show ?thesis by (auto intro: carried_forward_justified)
  qed
qed

theorem clean_is_justified_witness:
  "(\<exists>plan. staleness_against sample_fresh (sample_history 6) ''y'' ''v1'' sample_inputs (sample_store Map.empty)
       = (Inr plan, sample_store Map.empty) \<and> \<not> is_dirty plan 2)
   \<and> justified sample_fresh (sample_history 6) ''y'' sample_inputs [(0, ''1600000000000000''), (1, ''1700000000000000'')] 5 6 2
       ''1800000000000000''"
proof -
  let ?ds = "sample_history 6" and ?st = "sample_store Map.empty"
  have st: "stored_signatures_of sample_fresh ?ds ''y'' ?st = (Present [(0, ''1600000000000000''), (1, ''1700000000000000'')], ?st)"
    by (simp add: stored_signatures_of_def sample_history_def sample_fresh_simps sample_stamp_def)
       (simp add: sample_fresh_def SIDECAR_REF_def)
  have "case staleness_from sample_fresh ?ds ''y'' sample_inputs [(0, ''1600000000000000''), (1, ''1700000000000000'')] of
      Inr plan \<Rightarrow> \<not> is_dirty plan 2 | Inl e \<Rightarrow> False" by code_simp
  then obtain plan where pl: "staleness_from sample_fresh ?ds ''y'' sample_inputs [(0, ''1600000000000000''), (1, ''1700000000000000'')] = Inr plan"
    "\<not> is_dirty plan 2" by (auto split: sum.splits)
  have p: "staleness_against sample_fresh ?ds ''y'' ''v1'' sample_inputs ?st = (Inr plan, ?st)"
    using pl(1) by (simp add: staleness_against_def st)
      (simp add: sample_history_def sample_fresh_simps sample_stamp_def DEFINITION_VERSION_META_KEY_def SOURCE_SIGNATURE_META_KEY_def)
  have s: "signed sample_fresh ?ds sample_inputs 2 ''1800000000000000''"
    using sample_signed(2) by (simp add: sample_history_def)
  have "recorded_at sample_fresh ?ds ''y'' = 5" by code_simp
  moreover have "fd_version ?ds = 6" by code_simp
  ultimately show ?thesis using clean_is_justified [OF st p pl(2) s] p pl(2) by auto
qed


text \<open>
  C30 (damaged stamps). When the column refers to a sidecar of which there is no good copy, that is, the copy in the table's own
  directory or, if there is none, the one found through the bases lacks the digest of the reference or does
  not decode, or no copy can be read at all, the plan recomputes everything and planning does not fail.
  Planning writes nothing but the copy that it found through a base, which goes into the own directory.
\<close>
theorem damaged_sidecar_recomputes:
  assumes "field_meta ops ds column SOURCE_SIGNATURE_META_KEY = Some (SIDECAR_REF @ d)"
    and "\<forall>rt b. main_root ops ds = Inr rt
           \<and> (read_one_all st (sidecar_path rt d) = Found b
              \<or> read_one_all st (sidecar_path rt d) = NotFound \<and> read_sidecar_through_bases st (fd_bases ds) d = Inr b) \<longrightarrow>
           digest_of (sha256 ops) b \<noteq> d \<or> \<not> is_ok (decode_sidecar b)"
  shows "\<exists>plan st'. staleness_against ops ds column dv inputs st = (Inr plan, st') \<and> (\<forall>i. is_dirty plan i)
           \<and> (st' = st \<or> (\<exists>rt b. main_root ops ds = Inr rt \<and> objects st (sidecar_path rt d) = None
                \<and> read_sidecar_through_bases st (fd_bases ds) d = Inr b \<and> put st (sidecar_path rt d) b = Inr st'))"
proof -
  have bad: "\<exists>e. check_digest (sha256 ops) d b = Inl e"
    if "digest_of (sha256 ops) b \<noteq> d \<or> \<not> is_ok (decode_sidecar b)" for b
    using that by (cases "decode_sidecar b") (auto simp: check_digest_def is_ok_def)
  have "\<exists>e st'. read_sidecar (sha256 ops) (main_root ops ds) (fd_bases ds) d st = (Inl e, st')
      \<and> (st' = st \<or> (\<exists>rt b. main_root ops ds = Inr rt \<and> objects st (sidecar_path rt d) = None
           \<and> read_sidecar_through_bases st (fd_bases ds) d = Inr b \<and> put st (sidecar_path rt d) b = Inr st'))"
    (is "\<exists>e st'. ?read e st'")
  proof (cases "(main_root ops ds, open_fault st None)")
    case (Pair root fault)
    show ?thesis
    proof (cases root)
      case (Inr rt)
      show ?thesis
      proof (cases "read_one_all st (sidecar_path rt d)")
        case (Found b)
        with bad assms(2) Pair Inr show ?thesis
          by (fastforce simp: read_sidecar_def io_bind_def lift_def open_store_def Let_def split: option.splits)
      next
        case NotFound
        then have none: "objects st (sidecar_path rt d) = None" by (auto simp: read_one_all_def split: option.splits)
        show ?thesis
        proof (cases "read_sidecar_through_bases st (fd_bases ds) d")
          case (Inr b)
          with bad [of b] assms(2) NotFound Pair \<open>root = Inr rt\<close>
          obtain e where "check_digest (sha256 ops) d b = Inl e" by auto
          with Inr NotFound none Pair \<open>root = Inr rt\<close> show ?thesis
            by (cases fault; cases "put st (sidecar_path rt d) b")
              (auto simp: read_sidecar_def io_bind_def lift_def open_store_def Let_def)
        qed (use NotFound Pair \<open>root = Inr rt\<close> in
            \<open>cases fault; auto simp: read_sidecar_def io_bind_def lift_def open_store_def Let_def\<close>)
      qed (use Pair Inr in \<open>cases fault; auto simp: read_sidecar_def io_bind_def lift_def open_store_def Let_def\<close>)
    qed (use Pair in \<open>auto simp: read_sidecar_def io_bind_def lift_def\<close>)
  qed
  then obtain e st' where rd: "?read e st'" by blast
  then have "stored_signatures_of ops ds column st = (Unreadable, st')"
    using assms(1) by (simp add: stored_signatures_of_def strip_prefix_append)
  then show ?thesis using rd by (auto simp: staleness_against_def is_dirty_def)
qed

theorem damaged_sidecar_recomputes_witness:
  "\<not> is_ok (decode_sidecar [1])
   \<and> (\<exists>plan st'. staleness_against sample_fresh (sample_table 5 [] [(SOURCE_SIGNATURE_META_KEY, SIDECAR_REF @ ''d'')]) ''y'' ''v1''
         sample_inputs (sample_store [sidecar_path ''r'' ''d'' \<mapsto> [1]]) = (Inr plan, st') \<and> is_dirty plan 0)"
proof -
  have d: "\<not> is_ok (decode_sidecar [1])" by code_simp
  let ?t = "sample_table 5 [] [(SOURCE_SIGNATURE_META_KEY, SIDECAR_REF @ ''d'')]" and ?st = "sample_store [sidecar_path ''r'' ''d'' \<mapsto> [1]]"
  have m: "field_meta sample_fresh ?t ''y'' SOURCE_SIGNATURE_META_KEY = Some (SIDECAR_REF @ ''d'')" by (simp add: sample_fresh_simps)
  have b: "\<forall>rt b. main_root sample_fresh ?t = Inr rt \<and> (read_one_all ?st (sidecar_path rt ''d'') = Found b
      \<or> read_one_all ?st (sidecar_path rt ''d'') = NotFound \<and> read_sidecar_through_bases ?st (fd_bases ?t) ''d'' = Inr b) \<longrightarrow>
      digest_of (sha256 sample_fresh) b \<noteq> ''d'' \<or> \<not> is_ok (decode_sidecar b)"
    using d by (auto simp: sample_fresh_simps sample_store_def read_one_all_def)
  from damaged_sidecar_recomputes [OF m b] d show ?thesis by blast
qed

text \<open>
  C13 (pruning). Whatever the call returns, an object it changed is a listed sidecar that no version of the table and of its
  branches refers to, and it was removed; and after a successful call no such sidecar is left.
\<close>
theorem prune_keeps_referenced:
  assumes "(if fd_branch ds0 \<noteq> None then checkout_main ops ds0 else Inr ds0) = Inr ds" and "main_root ops ds = Inr rt"
    and "prune_sidecars ops ds0 du st = (r, st')"
  shows "(\<forall>p. objects st' p \<noteq> objects st p \<longrightarrow> objects st' p = None
            \<and> (\<exists>names d. read_dir ops st (rt @ ''/'' @ SIDECAR_DIR) (\<not> du) = Inr names
                 \<and> d @ ''.sig'' \<in> set names \<and> p = sidecar_path rt d \<and> \<not> referenced ops ds d))
         \<and> (\<forall>n names d. r = Inr n \<longrightarrow> read_dir ops st (rt @ ''/'' @ SIDECAR_DIR) (\<not> du) = Inr names \<longrightarrow>
              d @ ''.sig'' \<in> set names \<longrightarrow> \<not> referenced ops ds d \<longrightarrow> objects st' (sidecar_path rt d) = None)"
  using prune_sidecars_stages [OF assms]
proof (elim disjE exE conjE)
  assume "st' = st" "\<forall>n names. r = Inr n \<longrightarrow> read_dir ops st (rt @ ''/'' @ SIDECAR_DIR) (\<not> du) = Inr names \<longrightarrow>
           List.map_filter digest_of_name names = []"
  then show ?thesis unfolding listed_name [symmetric] by auto
next
  fix names on_main bs on_branches
  assume n: "read_dir ops st (rt @ ''/'' @ SIDECAR_DIR) (\<not> du) = Inr names" "referenced_digests ops ds = Inr on_main"
    "list_branches ops ds = Inr bs"
    "try_map (\<lambda>b. try_bind (checkout_named ops ds b) (referenced_digests ops)) bs = Inr on_branches"
    "remove_unreferenced (Inr rt) (on_main @ concat on_branches) (List.map_filter digest_of_name names) 0 st = (r, st')"
  have iff: "referenced ops ds d \<longleftrightarrow> d \<in> set (on_main @ concat on_branches)" for d
    using all_referenced [OF n(2-4)] all_referenced_sound [OF n(2-4)] by blast
  have "objects st' p = None \<and> (\<exists>d. d @ ''.sig'' \<in> set names \<and> p = sidecar_path rt d \<and> \<not> referenced ops ds d)"
    if "objects st' p \<noteq> objects st p" for p
    using remove_unreferenced_objects [OF n(5), of p] that unfolding iff listed_name [symmetric] by blast
  moreover have "objects st' (sidecar_path rt d) = None" if "r = Inr m" "d @ ''.sig'' \<in> set names" "\<not> referenced ops ds d" for m d
    using remove_unreferenced_all [of rt "on_main @ concat on_branches" "List.map_filter digest_of_name names" 0 st m st' d] n(5) that
    unfolding iff listed_name [symmetric] by simp
  ultimately show ?thesis using n(1) by auto
qed

theorem prune_keeps_referenced_witness:
  "\<exists>st'. prune_sidecars sample_fresh (sample_history 6) True
        (sample_store [sidecar_path ''r'' ''1'' \<mapsto> [1], sidecar_path ''r'' ''7'' \<mapsto> [2]]) = (Inr 2, st')
      \<and> objects st' (sidecar_path ''r'' ''1'') = None \<and> objects st' (sidecar_path ''r'' ''7'') = Some [2]"
proof -
  let ?st = "sample_store [sidecar_path ''r'' ''1'' \<mapsto> [1], sidecar_path ''r'' ''7'' \<mapsto> [2]]"
  have refs: "referenced_digests sample_fresh (sample_history 6) = Inr []" by code_simp
  have m: "(if fd_branch (sample_history 6) \<noteq> None then checkout_main sample_fresh (sample_history 6) else Inr (sample_history 6))
      = Inr (sample_history 6)" by (simp add: sample_history_def sample_table_def)
  have l: "read_dir sample_fresh ?st (''r'' @ ''/'' @ SIDECAR_DIR) (\<not> True) = Inr [''1.sig'', ''2.sig'', ''notes'']"
    "list_branches sample_fresh (sample_history 6) = Inr []" by (simp_all add: sample_fresh_def)
  have names: "digest_of_name ''1.sig'' = Some ''1''" "digest_of_name ''2.sig'' = Some ''2''" "digest_of_name ''notes'' = None"
    by code_simp+
  obtain st' where p: "prune_sidecars sample_fresh (sample_history 6) True ?st = (Inr 2, st')"
    using l unfolding prune_sidecars_def m
    by (auto simp: refs names io_bind_def lift_def open_store_def sample_fresh_simps(1) Let_def delete_def sample_store_def)
  have u: "\<not> referenced sample_fresh (sample_history 6) ''1''"
    using all_referenced [OF refs l(2), of "[]" "''1''"] by auto
  have "objects st' (sidecar_path ''r'' ''7'') = objects ?st (sidecar_path ''r'' ''7'')"
    using prune_keeps_referenced [OF m sample_fresh_simps(1) p] l(1) by fastforce
  moreover have "objects st' (sidecar_path ''r'' ''1'') = None"
    using prune_keeps_referenced [OF m sample_fresh_simps(1) p] l(1) u by fastforce
  ultimately show ?thesis using p by (auto simp: sample_store_def)
qed

end
