(* ===== verification/RemoteConfig.thy ===== *)
theory RemoteConfig
  imports Names Floats "HOL-Library.AList"
begin

text \<open>
  The configuration of the client of the remote service (\<^verbatim>\<open>remote/client.rs\<close>, \<^verbatim>\<open>remote/retry.rs\<close>): what a caller may
  set, how it is completed from the environment and from defaults, the host name, the headers every
  request carries, and the construction of the client. The \<^verbatim>\<open>http\<close>, \<^verbatim>\<open>url\<close> and \<^verbatim>\<open>reqwest\<close> crates, the file system
  and the environment variables are the record \<open>http_lib\<close>. A duration is its number of nanoseconds.
\<close>

section \<open>Settings\<close>

record tls_config =
  cert_file :: "string option"
  key_file :: "string option"
  ssl_ca_cert :: "string option"
  assert_hostname :: bool

definition default_tls_config :: tls_config where
  "default_tls_config = \<lparr>cert_file = None, key_file = None, ssl_ca_cert = None, assert_hostname = True\<rparr>"

definition DEFAULT_BLOB_REQUEST_CONCURRENCY :: nat where "DEFAULT_BLOB_REQUEST_CONCURRENCY = 8"
definition DEFAULT_MAX_BYTES_PER_REQUEST :: nat where "DEFAULT_MAX_BYTES_PER_REQUEST = 8 * 1024 * 1024 * 1024"
definition DEFAULT_MAX_REQUEST_DURATION_DIVISOR :: nat where "DEFAULT_MAX_REQUEST_DURATION_DIVISOR = 2"

record timeout_config =
  tc_timeout :: "nat option"
  tc_connect_timeout :: "nat option"
  tc_read_timeout :: "nat option"
  tc_pool_idle_timeout :: "nat option"

record retry_config =
  rc_retries :: "8 word option"
  rc_connect_retries :: "8 word option"
  rc_read_retries :: "8 word option"
  rc_backoff_factor :: "float option"
  rc_backoff_jitter :: "float option"
  rc_statuses :: "nat list option"

text \<open>The header provider of a client is given by the headers it returns at each of its calls.\<close>

type_synonym header_provider = "nat \<Rightarrow> (string \<times> string) list result"

record client_config =
  timeouts :: timeout_config
  retry_settings :: retry_config
  blob_request_concurrency :: "nat option"
  user_agent :: string
  extra_headers :: "(string \<times> string) list"
  id_delimiter :: "string option"
  tls :: "tls_config option"
  provider :: "header_provider option"
  user_id :: "string option"
  max_bytes_per_request :: "nat option"
  max_request_duration :: "nat option"

definition default_client_config :: "string \<Rightarrow> client_config" where
  "default_client_config pkg_version =
     \<lparr>timeouts = \<lparr>tc_timeout = None, tc_connect_timeout = None, tc_read_timeout = None, tc_pool_idle_timeout = None\<rparr>,
      retry_settings = \<lparr>rc_retries = None, rc_connect_retries = None, rc_read_retries = None, rc_backoff_factor = None,
        rc_backoff_jitter = None, rc_statuses = None\<rparr>,
      blob_request_concurrency = None, user_agent = ''LanceDB-Rust-Client/'' @ pkg_version, extra_headers = [],
      id_delimiter = None, tls = None, provider = None, user_id = None, max_bytes_per_request = None,
      max_request_duration = None\<rparr>"

text \<open>What the other crates and the system provide. A parsed URL is its host and its path; a parsed host is a DNS name or
  an address.\<close>

datatype url_host = Domain string | Address

text \<open>A header is a value and whether it is marked sensitive, under a lower-case name.\<close>

type_synonym header_map = "(string \<times> string \<times> bool) list"

record http_settings =
  hs_connect_timeout :: nat
  hs_read_timeout :: nat
  hs_pool_idle_timeout :: nat
  hs_timeout :: "nat option"
  hs_identity :: "nat list option"
  hs_root :: "nat list option"
  hs_accept_invalid_hostnames :: bool
  hs_default_headers :: header_map
  hs_user_agent :: string

record http_lib =
  env_var :: "string \<Rightarrow> string option"
  read_file :: "string \<Rightarrow> string + nat list"
  identity_from_pem :: "nat list \<Rightarrow> bool"
  certificate_from_pem :: "nat list \<Rightarrow> bool"
  build_client :: "http_settings \<Rightarrow> bool"
  url_parse :: "string \<Rightarrow> string + (string option \<times> string)"
  percent_decode :: "string \<Rightarrow> string + string"
  host_parse :: "string \<Rightarrow> string + url_host"
  header_name :: "string \<Rightarrow> string option"
  header_value :: "string \<Rightarrow> bool"
  header_text :: "string \<Rightarrow> bool"
  status_text :: "nat \<Rightarrow> string"
  uuid :: string

section \<open>Resolution\<close>

definition resolve_user_id :: "http_lib \<Rightarrow> client_config \<Rightarrow> string option" where
  "resolve_user_id lib cfg =
     (case user_id cfg of
        Some u \<Rightarrow> Some u
      | None \<Rightarrow>
          (let next = (case env_var lib ''LANCEDB_USER_ID_ENV_KEY'' of
                 None \<Rightarrow> None
               | Some key \<Rightarrow> (case env_var lib key of Some u \<Rightarrow> if u \<noteq> [] then Some u else None | None \<Rightarrow> None))
           in case env_var lib ''LANCEDB_USER_ID'' of
                Some u \<Rightarrow> if u \<noteq> [] then Some u else next
              | None \<Rightarrow> next))"

record parsed_db_url =
  db_name :: string
  db_prefix :: "string option"

definition parse_db_url :: "http_lib \<Rightarrow> string \<Rightarrow> parsed_db_url result" where
  "parse_db_url lib db_url =
     try_bind (map_err (\<lambda>err. InvalidInput (''db_url is not a valid URL. '' @ quoted db_url @ ''. Error: '' @ err)) (url_parse lib db_url))
       (\<lambda>(host, path).
     case host of
       None \<Rightarrow> Inl (InvalidInput (''Invalid database URL (missing host) '' @ quoted db_url))
     | Some h \<Rightarrow>
         try_bind (map_err (\<lambda>err. InvalidInput (''Invalid encoded database name: '' @ err)) (percent_decode lib h)) (\<lambda>name.
         try_bind (validate_database_name name) (\<lambda>_.
         let prefix = dropWhile (\<lambda>c. c = CHR ''/'') path
         in Inr \<lparr>db_name = name, db_prefix = (if prefix = [] then None else Some prefix)\<rparr>)))"

definition validate_dns_hostname :: "http_lib \<Rightarrow> string \<Rightarrow> unit result" where
  "validate_dns_hostname lib hostname =
     (case host_parse lib hostname of
        Inl err \<Rightarrow> Inl (InvalidInput (''LanceDB Cloud database URI or region produced an invalid hostname: '' @ err))
      | Inr Address \<Rightarrow> Inl (InvalidInput ''LanceDB Cloud database URI or region produced a non-DNS hostname'')
      | Inr (Domain h) \<Rightarrow>
          if 253 < length h \<or> list_ex (\<lambda>label. label = [] \<or> 63 < length label) (split_on CHR ''.'' h)
          then Inl (InvalidInput (''LanceDB Cloud database URI or region produced an invalid hostname: DNS labels must contain ''
                 @ ''1 to 63 bytes and the full hostname must not exceed 253 bytes''))
          else Inr ())"

definition ID_DELIMITER :: string where "ID_DELIMITER = ''$''"

definition validate_id_delimiter :: "string \<Rightarrow> unit result" where
  "validate_id_delimiter delimiter =
     (if delimiter \<noteq> ID_DELIMITER
      then Inl (InvalidInput (''id_delimiter '' @ quoted delimiter @ '' is not supported: '' @ quoted ID_DELIMITER
             @ '' is the only delimiter LanceDB services split an identifier on''))
      else Inr ())"

definition client_config_validate :: "client_config \<Rightarrow> unit result" where
  "client_config_validate cfg =
     (if blob_request_concurrency cfg = Some 0
      then Inl (InvalidInput ''blob_request_concurrency must be greater than zero'')
      else case id_delimiter cfg of None \<Rightarrow> Inr () | Some delimiter \<Rightarrow> validate_id_delimiter delimiter)"

definition u64_max_value :: nat where "u64_max_value = 2 ^ 64 - 1"

definition secs :: "nat \<Rightarrow> nat" where "secs n = n * 10 ^ 9"

definition get_timeout :: "http_lib \<Rightarrow> nat option \<Rightarrow> string \<Rightarrow> nat option result" where
  "get_timeout lib passed var =
     (case passed of
        Some d \<Rightarrow> Inr (Some d)
      | None \<Rightarrow>
          (case env_var lib var of
             None \<Rightarrow> Inr None
           | Some timeout \<Rightarrow>
               try_bind (ok_or (InvalidInput (''Invalid value for '' @ var @ '' environment variable: '' @ quoted timeout))
                           (parse_uint u64_max_value timeout)) (\<lambda>n.
               Inr (Some (secs n)))))"

definition resolve_blob_request_concurrency :: "http_lib \<Rightarrow> nat option \<Rightarrow> nat result" where
  "resolve_blob_request_concurrency lib passed =
     try_bind
       (case passed of
          Some v \<Rightarrow> Inr v
        | None \<Rightarrow>
            (case env_var lib ''LANCE_CLIENT_BLOB_REQUEST_CONCURRENCY'' of
               None \<Rightarrow> Inr DEFAULT_BLOB_REQUEST_CONCURRENCY
             | Some env \<Rightarrow>
                 ok_or (InvalidInput (''LANCE_CLIENT_BLOB_REQUEST_CONCURRENCY must be a positive integer, got '' @ quoted env))
                   (parse_uint u64_max_value env)))
       (\<lambda>v. if v = 0 then Inl (InvalidInput ''blob request concurrency must be greater than zero'') else Inr v)"

definition resolve_max_bytes_per_request :: "http_lib \<Rightarrow> nat option \<Rightarrow> nat option result" where
  "resolve_max_bytes_per_request lib passed =
     try_bind
       (case passed of
          Some v \<Rightarrow> Inr v
        | None \<Rightarrow>
            (case env_var lib ''LANCE_CLIENT_MAX_BYTES_PER_REQUEST'' of
               None \<Rightarrow> Inr DEFAULT_MAX_BYTES_PER_REQUEST
             | Some env \<Rightarrow>
                 ok_or (InvalidInput (''LANCE_CLIENT_MAX_BYTES_PER_REQUEST must be a non-negative integer, got '' @ quoted env))
                   (parse_uint u64_max_value env)))
       (\<lambda>v. Inr (if 0 < v then Some v else None))"

definition resolve_max_request_duration :: "http_lib \<Rightarrow> nat option \<Rightarrow> nat \<Rightarrow> nat option result" where
  "resolve_max_request_duration lib passed read_timeout =
     try_bind
       (case passed of
          Some v \<Rightarrow> Inr v
        | None \<Rightarrow>
            (case env_var lib ''LANCE_CLIENT_MAX_REQUEST_DURATION'' of
               None \<Rightarrow> Inr (read_timeout div DEFAULT_MAX_REQUEST_DURATION_DIVISOR)
             | Some env \<Rightarrow>
                 try_bind (ok_or (InvalidInput (''LANCE_CLIENT_MAX_REQUEST_DURATION must be a non-negative integer number of ''
                             @ ''seconds, got '' @ quoted env)) (parse_uint u64_max_value env)) (\<lambda>n.
                 Inr (secs n))))
       (\<lambda>v. Inr (if v \<noteq> 0 then Some v else None))"

text \<open>The resolved retry limits. A status outside 100 to 999 is no status code, and unwrapping it panics.\<close>

record resolved_retry_config =
  retries :: "8 word"
  connect_retries :: "8 word"
  read_retries :: "8 word"
  backoff_factor :: float
  backoff_jitter :: float
  statuses :: "nat list"

definition unwrap_or :: "'a \<Rightarrow> 'a option \<Rightarrow> 'a" where
  "unwrap_or d x = (case x of None \<Rightarrow> d | Some v \<Rightarrow> v)"

definition is_status_code :: "nat \<Rightarrow> bool" where
  "is_status_code s = (100 \<le> s \<and> s < 1000)"

definition resolve_retry_config :: "retry_config \<Rightarrow> resolved_retry_config result" where
  "resolve_retry_config rc =
     try_bind (try_map (\<lambda>s. if is_status_code s then Inr s else Inl (Panic ''invalid status code''))
                 (unwrap_or [409, 429, 500, 502, 503, 504] (rc_statuses rc))) (\<lambda>ss.
     Inr \<lparr>retries = unwrap_or 3 (rc_retries rc), connect_retries = unwrap_or 3 (rc_connect_retries rc),
          read_retries = unwrap_or 3 (rc_read_retries rc),
          backoff_factor = unwrap_or (Fin (1 / 4)) (rc_backoff_factor rc),
          backoff_jitter = unwrap_or (Fin (1 / 4)) (rc_backoff_jitter rc), statuses = ss\<rparr>)"


section \<open>The client\<close>

definition read_pem :: "http_lib \<Rightarrow> string \<Rightarrow> string \<Rightarrow> nat list result" where
  "read_pem lib what path = map_err (\<lambda>_. Other (''Failed to read '' @ what @ '' file: '' @ path)) (read_file lib path)"

definition load_identity :: "http_lib \<Rightarrow> tls_config \<Rightarrow> nat list option result" where
  "load_identity lib t =
     (case (cert_file t, key_file t) of
        (Some cert, Some key) \<Rightarrow>
          try_bind (read_pem lib ''certificate'' cert) (\<lambda>c.
          try_bind (read_pem lib ''key'' key) (\<lambda>k.
          if identity_from_pem lib (c @ k) then Inr (Some (c @ k))
          else Inl (Other ''Failed to create client identity from certificate and key'')))
      | _ \<Rightarrow> Inr None)"

definition load_root :: "http_lib \<Rightarrow> tls_config \<Rightarrow> nat list option result" where
  "load_root lib t =
     (case ssl_ca_cert t of
        None \<Rightarrow> Inr None
      | Some path \<Rightarrow>
          try_bind (read_pem lib ''CA certificate'' path) (\<lambda>ca.
          if certificate_from_pem lib ca then Inr (Some ca)
          else Inl (Other ''Failed to create CA certificate from PEM'')))"

definition apply_tls :: "http_lib \<Rightarrow> tls_config option \<Rightarrow> http_settings \<Rightarrow> http_settings result" where
  "apply_tls lib cfg hs =
     (case cfg of
        None \<Rightarrow> Inr hs
      | Some t \<Rightarrow>
          try_bind (load_identity lib t) (\<lambda>i.
          try_bind (load_root lib t) (\<lambda>r.
          Inr (hs\<lparr>hs_identity := i, hs_root := r, hs_accept_invalid_hostnames := \<not> assert_hostname t\<rparr>))))"

record client =
  http :: http_settings
  host :: string
  client_retry :: resolved_retry_config
  blob_permits :: nat
  client_provider :: "header_provider option"
  read_consistency_interval :: "nat option"
  client_max_bytes :: "nat option"
  client_max_duration :: "nat option"

definition resolve_host :: "http_lib \<Rightarrow> parsed_db_url \<Rightarrow> string \<Rightarrow> string option \<Rightarrow> string result" where
  "resolve_host lib url region host_override =
     (case host_override of
        Some h \<Rightarrow> Inr h
      | None \<Rightarrow>
          (let hostname = db_name url @ ''.'' @ region @ ''.api.lancedb.com''
           in try_bind (validate_dns_hostname lib hostname) (\<lambda>_. Inr (''https://'' @ hostname))))"

text \<open>The largest semaphore, \<^verbatim>\<open>usize::MAX >> 3\<close>; a larger one panics.\<close>

definition MAX_PERMITS :: nat where "MAX_PERMITS = (2 ^ 64 - 1) div 8"

definition new_semaphore :: "nat \<Rightarrow> nat result" where
  "new_semaphore permits =
     (if MAX_PERMITS < permits
      then Inl (Panic (''a semaphore may not have more than MAX_PERMITS permits ('' @ show_nat MAX_PERMITS @ '')''))
      else Inr permits)"

definition try_new :: "http_lib \<Rightarrow> parsed_db_url \<Rightarrow> string \<Rightarrow> string option \<Rightarrow> header_map \<Rightarrow> client_config \<Rightarrow> nat option \<Rightarrow>
    client result" where
  "try_new lib url region host_override default_headers cfg interval =
     try_bind (client_config_validate cfg) (\<lambda>_.
     try_bind (resolve_blob_request_concurrency lib (blob_request_concurrency cfg)) (\<lambda>permits.
     try_bind (get_timeout lib (tc_timeout (timeouts cfg)) ''LANCE_CLIENT_TIMEOUT'') (\<lambda>timeout.
     try_bind (get_timeout lib (tc_connect_timeout (timeouts cfg)) ''LANCE_CLIENT_CONNECT_TIMEOUT'') (\<lambda>connect.
     try_bind (get_timeout lib (tc_read_timeout (timeouts cfg)) ''LANCE_CLIENT_READ_TIMEOUT'') (\<lambda>read.
     try_bind (get_timeout lib (tc_pool_idle_timeout (timeouts cfg)) ''LANCE_CLIENT_CONNECTION_TIMEOUT'') (\<lambda>pool.
     let read_timeout = unwrap_or (secs 300) read in
     try_bind (apply_tls lib (tls cfg)
        \<lparr>hs_connect_timeout = unwrap_or (secs 120) connect, hs_read_timeout = read_timeout,
         hs_pool_idle_timeout = unwrap_or (secs 300) pool, hs_timeout = timeout, hs_identity = None, hs_root = None,
         hs_accept_invalid_hostnames = False, hs_default_headers = default_headers, hs_user_agent = user_agent cfg\<rparr>) (\<lambda>hs.
     try_bind (if build_client lib hs then Inr () else Inl (Other ''Failed to build HTTP client'')) (\<lambda>_.
     try_bind (resolve_host lib url region host_override) (\<lambda>h.
     try_bind (resolve_retry_config (retry_settings cfg)) (\<lambda>rc.
     try_bind (resolve_max_bytes_per_request lib (max_bytes_per_request cfg)) (\<lambda>bytes.
     try_bind (resolve_max_request_duration lib (max_request_duration cfg) read_timeout) (\<lambda>duration.
     try_bind (new_semaphore permits) (\<lambda>semaphore.
     Inr \<lparr>http = hs, host = h, client_retry = rc, blob_permits = semaphore,
          client_provider = provider cfg, read_consistency_interval = interval, client_max_bytes = bytes,
          client_max_duration = duration\<rparr>)))))))))))))"

section \<open>Headers\<close>

definition SENSITIVE_HEADERS :: "string list" where
  "SENSITIVE_HEADERS = [''authorization'', ''proxy-authorization'', ''cookie'', ''set-cookie'', ''x-api-key'']"

definition to_ascii_lowercase :: "char \<Rightarrow> char" where
  "to_ascii_lowercase c = (let n = of_char c :: nat in if 65 \<le> n \<and> n \<le> 90 then char_of (n + 32) else c)"

definition eq_ignore_ascii_case :: "string \<Rightarrow> string \<Rightarrow> bool" where
  "eq_ignore_ascii_case a b = (map to_ascii_lowercase a = map to_ascii_lowercase b)"

definition redact_sensitive_headers :: "header_map \<Rightarrow> header_map" where
  "redact_sensitive_headers hs =
     map (\<lambda>(n, v, s). (n, v, s \<or> list_ex (eq_ignore_ascii_case n) SENSITIVE_HEADERS)) hs"

definition insert_header :: "http_lib \<Rightarrow> string \<Rightarrow> string \<Rightarrow> string \<Rightarrow> header_map \<Rightarrow> header_map result" where
  "insert_header lib message name v hs =
     (if header_value lib v then Inr (AList.update name (v, False) hs) else Inl (InvalidInput message))"

definition insert_if_some :: "http_lib \<Rightarrow> string \<Rightarrow> string \<Rightarrow> string option \<Rightarrow> header_map \<Rightarrow> header_map result" where
  "insert_if_some lib message name v hs = (case v of None \<Rightarrow> Inr hs | Some x \<Rightarrow> insert_header lib message name x hs)"

fun insert_extra_headers :: "http_lib \<Rightarrow> (string \<times> string) list \<Rightarrow> header_map \<Rightarrow> header_map result" where
  "insert_extra_headers lib [] hs = Inr hs"
| "insert_extra_headers lib ((k, v) # rest) hs =
     (let message = ''non-ascii value for header '' @ quoted k @ '' provided''
      in try_bind (ok_or (InvalidInput message) (header_name lib k)) (\<lambda>name.
         try_bind (insert_header lib message name v hs) (insert_extra_headers lib rest)))"

definition default_headers :: "http_lib \<Rightarrow> string \<Rightarrow> string \<Rightarrow> string \<Rightarrow> bool \<Rightarrow> (string \<rightharpoonup> string) \<Rightarrow> string option \<Rightarrow>
    client_config \<Rightarrow> header_map result" where
  "default_headers lib api_key region db has_host_override options prefix cfg =
     (let name_message = ''non-ascii database name '' @ quoted db @ '' provided'';
          account_message = ''non-ascii storage account name '' @ quoted db @ '' provided''
      in
     try_bind (if api_key = [] then Inr []
               else if header_value lib api_key then Inr [(''x-api-key'', api_key, True)]
               else Inl (InvalidInput ''non-ascii api key provided'')) (\<lambda>h0.
     try_bind (if region = ''local'' then insert_header lib name_message ''host'' (db @ ''.local.api.lancedb.com'') h0 else Inr h0) (\<lambda>h1.
     try_bind (if has_host_override then insert_header lib name_message ''x-lancedb-database'' db h1 else Inr h1) (\<lambda>h2.
     try_bind (insert_if_some lib (''non-ascii database prefix '' @ quoted (unwrap_or [] prefix) @ '' provided'')
                 ''x-lancedb-database-prefix'' prefix h2) (\<lambda>h3.
     try_bind (insert_if_some lib account_message ''x-azure-storage-account-name'' (options ''account_name'') h3) (\<lambda>h4.
     try_bind (insert_if_some lib account_message ''x-azure-storage-account-name'' (options ''azure_storage_account_name'') h4) (\<lambda>h5.
     try_bind (insert_extra_headers lib (extra_headers cfg) h5) (\<lambda>h6.
     try_bind (insert_if_some lib (''non-ascii user_id '' @ quoted (unwrap_or [] (resolve_user_id lib cfg)) @ '' provided'')
                 ''x-lancedb-user-id'' (resolve_user_id lib cfg) h6) (\<lambda>h7.
     Inr (redact_sensitive_headers h7))))))))))"

section \<open>Well-formed clients\<close>

text \<open>What the rest of the library relies on: limits that are on are positive, statuses are status codes, and a host
  that was not given is an HTTPS address with legal DNS labels.\<close>

definition wf_client :: "http_lib \<Rightarrow> string option \<Rightarrow> client \<Rightarrow> bool" where
  "wf_client lib host_override c =
     (0 < blob_permits c \<and> blob_permits c \<le> MAX_PERMITS \<and> client_max_bytes c \<noteq> Some 0 \<and> client_max_duration c \<noteq> Some 0
      \<and> list_all is_status_code (statuses (client_retry c))
      \<and> (case host_override of
           Some h \<Rightarrow> host c = h
         | None \<Rightarrow> (\<exists>name h. host c = ''https://'' @ name \<and> host_parse lib name = Inr (Domain h) \<and> length h \<le> 253
                       \<and> list_all (\<lambda>l. l \<noteq> [] \<and> length l \<le> 63) (split_on CHR ''.'' h))))"

lemma try_map_status:
  "try_map (\<lambda>s. if is_status_code s then Inr s else Inl e) xs = Inr ys \<Longrightarrow> ys = xs \<and> list_all is_status_code ys"
  by (induction xs arbitrary: ys) (auto simp: try_bind_Inr_iff split: if_splits)

lemma resolved_statuses: "resolve_retry_config rc = Inr r \<Longrightarrow> list_all is_status_code (statuses r)"
  by (auto simp: resolve_retry_config_def try_bind_Inr_iff dest: try_map_status)

lemma resolved_permits: "resolve_blob_request_concurrency lib p = Inr n \<Longrightarrow> 0 < n"
  by (auto simp: resolve_blob_request_concurrency_def try_bind_Inr_iff split: if_splits)

lemma resolved_bytes: "resolve_max_bytes_per_request lib p \<noteq> Inr (Some 0)"
  by (auto simp: resolve_max_bytes_per_request_def try_bind_Inr_iff split: if_splits)

lemma resolved_duration: "resolve_max_request_duration lib p t \<noteq> Inr (Some 0)"
  by (auto simp: resolve_max_request_duration_def try_bind_Inr_iff split: if_splits)

lemma resolved_host:
  "resolve_host lib url region None = Inr h \<Longrightarrow>
     \<exists>name d. h = ''https://'' @ name \<and> host_parse lib name = Inr (Domain d) \<and> length d \<le> 253
       \<and> list_all (\<lambda>l. l \<noteq> [] \<and> length l \<le> 63) (split_on CHR ''.'' d)"
  by (force simp: resolve_host_def validate_dns_hostname_def try_bind_Inr_iff Let_def list_all_iff list_ex_iff not_less
      split: sum.splits url_host.splits if_splits)


lemma update_sensitive:
  "(n, v, s) \<in> set (redact_sensitive_headers hs) \<Longrightarrow> n \<in> set SENSITIVE_HEADERS \<Longrightarrow> s"
  by (auto simp: redact_sensitive_headers_def list_ex_iff eq_ignore_ascii_case_def)

lemma map_of_redact:
  "map_of (redact_sensitive_headers hs) n
     = map_option (\<lambda>(v, s). (v, s \<or> list_ex (eq_ignore_ascii_case n) SENSITIVE_HEADERS)) (map_of hs n)"
  by (induction hs) (auto simp: redact_sensitive_headers_def)

lemma insert_header_other: "insert_header lib m n v hs = Inr hs' \<Longrightarrow> k \<noteq> n \<Longrightarrow> map_of hs' k = map_of hs k"
  by (auto simp: insert_header_def update_conv split: if_splits)

lemma insert_if_some_other: "insert_if_some lib m n v hs = Inr hs' \<Longrightarrow> k \<noteq> n \<Longrightarrow> map_of hs' k = map_of hs k"
  by (auto simp: insert_if_some_def insert_header_other split: option.splits)

lemma insert_extra_headers_other:
  "insert_extra_headers lib kvs hs = Inr hs' \<Longrightarrow> \<forall>(k, v) \<in> set kvs. header_name lib k \<noteq> Some n \<Longrightarrow> map_of hs' n = map_of hs n"
  by (induction kvs arbitrary: hs)
    (auto simp: Let_def try_bind_Inr_iff ok_or_def insert_header_other split: option.splits)

lemma map_of_insert_if: "(if b then insert_header lib m n v hs else Inr hs) = Inr hs' \<Longrightarrow> k \<noteq> n \<Longrightarrow> map_of hs' k = map_of hs k"
  by (auto simp: insert_header_other split: if_splits)

section \<open>A concrete system\<close>

definition sample_lib :: http_lib where
  "sample_lib = \<lparr>env_var = Map.empty, read_file = (\<lambda>_. Inl ''missing''), identity_from_pem = (\<lambda>_. True), certificate_from_pem = (\<lambda>_. True),
     build_client = (\<lambda>_. True), url_parse = (\<lambda>u. Inr (Some ''db'', [])), percent_decode = Inr, host_parse = (\<lambda>h. Inr (Domain h)),
     header_name = Some, header_value = (\<lambda>_. True), header_text = (\<lambda>_. True), status_text = show_nat, uuid = ''id''\<rparr>"

section \<open>Properties\<close>

text \<open>
  C31 (well-formed clients). A client that is constructed has a positive number of blob requests that a semaphore can hold, no limit that is set to
  zero, only valid statuses to retry on, and the given host or an HTTPS address whose labels are legal DNS labels.
\<close>
theorem client_well_formed:
  assumes "try_new lib url region host_override headers cfg interval = Inr c"
  shows "wf_client lib host_override c"
proof -
  from assms obtain read_timeout permits where r: "resolve_blob_request_concurrency lib (blob_request_concurrency cfg) = Inr permits"
    "resolve_host lib url region host_override = Inr (host c)"
    "resolve_retry_config (retry_settings cfg) = Inr (client_retry c)"
    "resolve_max_bytes_per_request lib (max_bytes_per_request cfg) = Inr (client_max_bytes c)"
    "resolve_max_request_duration lib (max_request_duration cfg) read_timeout = Inr (client_max_duration c)"
    "new_semaphore permits = Inr (blob_permits c)"
    by (auto simp: try_new_def try_bind_Inr_iff Let_def)
  have "case host_override of Some h \<Rightarrow> host c = h
     | None \<Rightarrow> (\<exists>name h. host c = ''https://'' @ name \<and> host_parse lib name = Inr (Domain h) \<and> length h \<le> 253
                       \<and> list_all (\<lambda>l. l \<noteq> [] \<and> length l \<le> 63) (split_on CHR ''.'' h))"
    using r(2) resolved_host by (cases host_override) (auto simp: resolve_host_def)
  moreover have "client_max_bytes c \<noteq> Some 0" "client_max_duration c \<noteq> Some 0"
    using r(4,5) resolved_bytes resolved_duration by metis+
  moreover have "blob_permits c = permits" "permits \<le> MAX_PERMITS"
    using r(6) by (auto simp: new_semaphore_def split: if_splits)
  ultimately show ?thesis using resolved_permits [OF r(1)] resolved_statuses [OF r(3)] by (simp add: wf_client_def)
qed

theorem client_well_formed_witness:
  "\<exists>c. try_new sample_lib \<lparr>db_name = ''db'', db_prefix = None\<rparr> ''us-east-1'' None [] (default_client_config ''0.1'') None = Inr c
     \<and> host c = ''https://db.us-east-1.api.lancedb.com'' \<and> blob_permits c = 8 \<and> client_max_duration c = Some (secs 150)
     \<and> wf_client sample_lib None c"
proof -
  let ?r = "try_new sample_lib \<lparr>db_name = ''db'', db_prefix = None\<rparr> ''us-east-1'' None [] (default_client_config ''0.1'') None"
  have "case ?r of Inr c \<Rightarrow> host c = ''https://db.us-east-1.api.lancedb.com'' \<and> blob_permits c = 8
      \<and> client_max_duration c = Some (secs 150) | Inl e \<Rightarrow> False" by code_simp
  then obtain c where "?r = Inr c" "host c = ''https://db.us-east-1.api.lancedb.com''" "blob_permits c = 8"
    "client_max_duration c = Some (secs 150)" by (auto split: sum.splits)
  with client_well_formed [of sample_lib "\<lparr>db_name = ''db'', db_prefix = None\<rparr>" "''us-east-1''" None "[]" _ None c]
  show ?thesis by blast
qed

text \<open>
  C32 (secrets). Every default header whose name is one of the sensitive ones is marked sensitive, whoever set it; and a given
  API key is sent unless the configured extra headers replace it.
\<close>
theorem secrets_marked:
  assumes "default_headers lib api_key region db has_host_override options prefix cfg = Inr hs"
  shows "(\<forall>(n, v, s) \<in> set hs. n \<in> set SENSITIVE_HEADERS \<longrightarrow> s)
         \<and> (api_key \<noteq> [] \<and> (\<forall>(k, v) \<in> set (extra_headers cfg). header_name lib k \<noteq> Some ''x-api-key'')
              \<longrightarrow> map_of hs ''x-api-key'' = Some (api_key, True))"
proof -
  from assms obtain h0 h1 h2 h3 h4 h5 h6 h7 ma mb mc md me where h:
    "(if api_key = [] then Inr [] else if header_value lib api_key then Inr [(''x-api-key'', api_key, True)]
      else Inl (InvalidInput ''non-ascii api key provided'')) = Inr h0"
    "(if region = ''local'' then insert_header lib ma ''host'' (db @ ''.local.api.lancedb.com'') h0 else Inr h0) = Inr h1"
    "(if has_host_override then insert_header lib ma ''x-lancedb-database'' db h1 else Inr h1) = Inr h2"
    "insert_if_some lib mb ''x-lancedb-database-prefix'' prefix h2 = Inr h3"
    "insert_if_some lib mc ''x-azure-storage-account-name'' (options ''account_name'') h3 = Inr h4"
    "insert_if_some lib mc ''x-azure-storage-account-name'' (options ''azure_storage_account_name'') h4 = Inr h5"
    "insert_extra_headers lib (extra_headers cfg) h5 = Inr h6"
    "insert_if_some lib md ''x-lancedb-user-id'' (resolve_user_id lib cfg) h6 = Inr h7" "hs = redact_sensitive_headers h7"
    unfolding default_headers_def Let_def try_bind_Inr_iff by blast
  have "map_of hs ''x-api-key'' = Some (api_key, True)"
    if k: "api_key \<noteq> []" "\<forall>(k, v) \<in> set (extra_headers cfg). header_name lib k \<noteq> Some ''x-api-key''"
  proof -
    have "map_of h7 ''x-api-key'' = map_of h0 ''x-api-key''"
      using insert_if_some_other [OF h(8)] insert_extra_headers_other [OF h(7) k(2)] insert_if_some_other [OF h(6)]
        insert_if_some_other [OF h(5)] insert_if_some_other [OF h(4)] map_of_insert_if [OF h(3)] map_of_insert_if [OF h(2)] by simp
    with h(1) k(1) show ?thesis unfolding h(9) map_of_redact by (auto split: if_splits)
  qed
  moreover have "\<forall>(n, v, s) \<in> set hs. n \<in> set SENSITIVE_HEADERS \<longrightarrow> s" unfolding h(9) using update_sensitive by blast
  ultimately show ?thesis by blast
qed

theorem secrets_marked_witness:
  "default_headers sample_lib ''key'' ''local'' ''db'' True Map.empty None
       ((default_client_config ''0.1'')\<lparr>extra_headers := [(''authorization'', ''token'')]\<rparr>)
     = Inr [(''x-api-key'', ''key'', True), (''host'', ''db.local.api.lancedb.com'', False), (''x-lancedb-database'', ''db'', False),
            (''authorization'', ''token'', True)]
   \<and> list_all (\<lambda>(n, v, s). n \<in> set SENSITIVE_HEADERS \<longleftrightarrow> s)
       [(''x-api-key'', ''key'', True), (''host'', ''db.local.api.lancedb.com'', False), (''x-lancedb-database'', ''db'', False),
        (''authorization'', ''token'', True)]"
proof -
  have d: "default_headers sample_lib ''key'' ''local'' ''db'' True Map.empty None
       ((default_client_config ''0.1'')\<lparr>extra_headers := [(''authorization'', ''token'')]\<rparr>)
     = Inr [(''x-api-key'', ''key'', True), (''host'', ''db.local.api.lancedb.com'', False), (''x-lancedb-database'', ''db'', False),
            (''authorization'', ''token'', True)]" by code_simp
  have "''host'' \<notin> set SENSITIVE_HEADERS" "''x-lancedb-database'' \<notin> set SENSITIVE_HEADERS"
    "''x-api-key'' \<in> set SENSITIVE_HEADERS" "''authorization'' \<in> set SENSITIVE_HEADERS" by code_simp+
  with secrets_marked [OF d] d show ?thesis by simp
qed

end
