(* ===== verification/RemoteClient.thy ===== *)
theory RemoteClient
  imports RemoteConfig
begin

text \<open>
  Sending requests to the remote service: the retry counter of \<^verbatim>\<open>remote/retry.rs\<close> and the methods of
  \<^verbatim>\<open>RestfulLanceDbClient\<close> that send (\<^verbatim>\<open>remote/client.rs\<close>). The transport is a function from the number of the attempt
  and the request to an outcome; a trace records what was sent, with which outcome, and the pauses. The retry loop
  is a partial function, and that it returns is proved. The failure counters are 8-bit words.
\<close>

section \<open>Requests and outcomes\<close>

datatype body = Bytes string | Streaming

record request =
  rq_headers :: header_map
  rq_body :: "body option"

record response =
  rs_status :: nat
  rs_text :: "string option"

record reqwest_error =
  re_connect :: bool
  re_timeout :: bool
  re_body :: bool
  re_decode :: bool
  re_status :: "nat option"
  re_text :: string

type_synonym outcome = "reqwest_error + response"

text \<open>A request builder: whether it can be cloned, and what building gives.\<close>

record request_builder =
  rb_cloneable :: bool
  rb_request :: "string + request"

record net =
  make_body :: "(nat \<Rightarrow> body result) option"
  sender :: "nat \<Rightarrow> request \<Rightarrow> outcome"
  random :: "nat \<Rightarrow> rat"
  log_debug :: bool

definition is_success :: "nat \<Rightarrow> bool" where "is_success s = (200 \<le> s \<and> s < 300)"
definition is_server_error :: "nat \<Rightarrow> bool" where "is_server_error s = (500 \<le> s \<and> s < 600)"

section \<open>Counting failures\<close>

record retry_counter =
  request_failures :: "8 word"
  connect_failures :: "8 word"
  read_failures :: "8 word"
  counter_request_id :: string

definition new_counter :: "string \<Rightarrow> retry_counter" where
  "new_counter i = \<lparr>request_failures = 0, connect_failures = 0, read_failures = 0, counter_request_id = i\<rparr>"

definition check_out_of_retries :: "resolved_retry_config \<Rightarrow> retry_counter \<Rightarrow> string \<Rightarrow> nat option \<Rightarrow> retry_counter result" where
  "check_out_of_retries cfg c source status =
     (if retries cfg \<le> request_failures c \<or> connect_retries cfg \<le> connect_failures c \<or> read_retries cfg \<le> read_failures c
      then Inl (Retry (counter_request_id c) (unat (request_failures c)) (unat (retries cfg))
             (unat (connect_failures c)) (unat (connect_retries cfg)) (unat (read_failures c)) (unat (read_retries cfg)) source status)
      else Inr c)"

definition http_status :: "error \<Rightarrow> nat option" where
  "http_status e = (case e of Http s i status \<Rightarrow> status | _ \<Rightarrow> None)"

definition increment_request_failures :: "resolved_retry_config \<Rightarrow> error \<Rightarrow> retry_counter \<Rightarrow> retry_counter result" where
  "increment_request_failures cfg source c =
     check_out_of_retries cfg (c\<lparr>request_failures := request_failures c + 1\<rparr>) (error_to_string source) (http_status source)"

text \<open>The error together with the transport error it wraps, when it is an \<^verbatim>\<open>Http\<close> error that wraps one.\<close>

definition increment_from_error :: "resolved_retry_config \<Rightarrow> error \<Rightarrow> reqwest_error option \<Rightarrow> retry_counter \<Rightarrow> retry_counter result" where
  "increment_from_error cfg source wrapped c =
     (let re = (case source of Http s i status \<Rightarrow> wrapped | _ \<Rightarrow> None);
          holds = (\<lambda>p. case re of None \<Rightarrow> False | Some e \<Rightarrow> p e);
          c' = (if holds re_connect then c\<lparr>connect_failures := connect_failures c + 1\<rparr>
                else if holds (\<lambda>e. re_body e \<or> re_decode e) then c\<lparr>read_failures := read_failures c + 1\<rparr>
                else c\<lparr>request_failures := request_failures c + 1\<rparr>)
      in check_out_of_retries cfg c' (error_to_string source) (http_status source))"

definition increment_connect_failures :: "resolved_retry_config \<Rightarrow> reqwest_error \<Rightarrow> retry_counter \<Rightarrow> retry_counter result" where
  "increment_connect_failures cfg e c =
     check_out_of_retries cfg (c\<lparr>connect_failures := connect_failures c + 1\<rparr>) (re_text e) (re_status e)"

definition increment_read_failures :: "resolved_retry_config \<Rightarrow> reqwest_error \<Rightarrow> retry_counter \<Rightarrow> retry_counter result" where
  "increment_read_failures cfg e c =
     check_out_of_retries cfg (c\<lparr>read_failures := read_failures c + 1\<rparr>) (re_text e) (re_status e)"

text \<open>\<^verbatim>\<open>Duration::from_secs_f32\<close> panics on what is not a duration, and rounds to nanoseconds.\<close>

definition from_secs_f32 :: "float \<Rightarrow> nat result" where
  "from_secs_f32 x =
     (case x of
        Fin s \<Rightarrow> if s < 0 then Inl (Panic ''cannot convert float seconds to Duration: value is negative'')
                 else if 2 ^ 64 \<le> s then Inl (Panic ''cannot convert float seconds to Duration: value is either too big or NaN'')
                 else Inr (nat (round_half_even (s * 10 ^ 9)))
      | NegInf \<Rightarrow> Inl (Panic ''cannot convert float seconds to Duration: value is negative'')
      | _ \<Rightarrow> Inl (Panic ''cannot convert float seconds to Duration: value is either too big or NaN''))"

definition next_sleep_time :: "resolved_retry_config \<Rightarrow> rat \<Rightarrow> retry_counter \<Rightarrow> nat result" where
  "next_sleep_time cfg rnd c =
     (let backoff = float_mul f32_format (backoff_factor cfg) (fl f32_format (2 ^ unat (request_failures c)));
          jitter = float_mul f32_format (Fin rnd) (backoff_jitter cfg)
      in from_secs_f32 (float_add f32_format backoff jitter))"

section \<open>Preparing a request\<close>

definition REQUEST_ID_HEADER :: string where "REQUEST_ID_HEADER = ''x-request-id''"

definition set_request_id :: "http_lib \<Rightarrow> string \<Rightarrow> request \<Rightarrow> request result" where
  "set_request_id lib i r =
     (if header_value lib i then Inr (r\<lparr>rq_headers := AList.update REQUEST_ID_HEADER (i, False) (rq_headers r)\<rparr>)
      else Inl (Panic ''invalid header value''))"

definition extract_request_id :: "http_lib \<Rightarrow> request \<Rightarrow> (string \<times> request) result" where
  "extract_request_id lib r =
     (case map_of (rq_headers r) REQUEST_ID_HEADER of
        Some (v, s) \<Rightarrow> if header_text lib v then Inr (v, r) else Inl (Panic ''header value is not text'')
      | None \<Rightarrow> try_bind (set_request_id lib (uuid lib) r) (\<lambda>r'. Inr (uuid lib, r')))"

definition insert_dynamic_header :: "http_lib \<Rightarrow> string \<times> string \<Rightarrow> header_map \<Rightarrow> header_map" where
  "insert_dynamic_header lib kv hs =
     (case header_name lib (fst kv) of
        None \<Rightarrow> hs
      | Some name \<Rightarrow> if header_value lib (snd kv) then AList.update name (snd kv, False) hs else hs)"

definition apply_dynamic_headers :: "http_lib \<Rightarrow> header_provider option \<Rightarrow> nat \<Rightarrow> request \<Rightarrow> request result" where
  "apply_dynamic_headers lib prov n r =
     try_bind (case prov of None \<Rightarrow> Inr (rq_headers r)
               | Some p \<Rightarrow> try_bind (p n) (\<lambda>kvs. Inr (fold (insert_dynamic_header lib) kvs (rq_headers r)))) (\<lambda>hs.
     Inr (r\<lparr>rq_headers := redact_sensitive_headers hs\<rparr>))"

datatype body_logging = Allowed | Suppressed

text \<open>The line written to the debug log: the id, the headers as they print, and the body.\<close>

type_synonym log_line = "string \<times> (string \<times> string) list \<times> string option"

definition printed_headers :: "header_map \<Rightarrow> (string \<times> string) list" where
  "printed_headers hs = map (\<lambda>(n, v, s). (n, if s then ''Sensitive'' else v)) hs"

definition log_request :: "http_lib \<Rightarrow> bool \<Rightarrow> request \<Rightarrow> string \<Rightarrow> body_logging \<Rightarrow> log_line option result" where
  "log_request lib enabled r i logging =
     (if \<not> enabled then Inr None
      else try_bind (case map_of (rq_headers r) ''content-type'' of
             None \<Rightarrow> Inr None
           | Some (v, s) \<Rightarrow> if header_text lib v then Inr (Some v) else Inl (Panic ''header value is not text'')) (\<lambda>content_type.
           if logging = Suppressed then Inr (Some (i, printed_headers (rq_headers r), None))
           else if content_type = Some ''application/json'' then
             (case rq_body r of
                Some (Bytes b) \<Rightarrow> Inr (Some (i, printed_headers (rq_headers r), Some b))
              | _ \<Rightarrow> Inl (Panic ''called `Option::unwrap()` on a `None` value''))
           else Inr (Some (i, printed_headers (rq_headers r), None))))"

section \<open>Sending\<close>

definition check_response :: "http_lib \<Rightarrow> string \<Rightarrow> response \<Rightarrow> response result" where
  "check_response lib i r =
     (if is_success (rs_status r) then Inr r
      else Inl (Http (case rs_text r of
                   Some t \<Rightarrow> status_text lib (rs_status r) @ '': '' @ t
                 | None \<Rightarrow> status_text lib (rs_status r)) i (Some (rs_status r))))"

definition err_to_http :: "string \<Rightarrow> outcome \<Rightarrow> response result" where
  "err_to_http i o' = map_err (\<lambda>err. Http (re_text err) i (re_status err)) o'"

definition send_logging :: "http_lib \<Rightarrow> net \<Rightarrow> header_provider option \<Rightarrow> request_builder \<Rightarrow> body_logging \<Rightarrow>
    (string \<times> response) result" where
  "send_logging lib nt prov b logging =
     try_bind (map_err (\<lambda>e. Panic (''called `Result::unwrap()` on an `Err` value: '' @ e)) (rb_request b)) (\<lambda>r0.
     try_bind (extract_request_id lib r0) (\<lambda>(i, r1).
     try_bind (apply_dynamic_headers lib prov 0 r1) (\<lambda>r2.
     try_bind (log_request lib (log_debug nt) r2 i logging) (\<lambda>_.
     try_bind (err_to_http i (sender nt 0 r2)) (\<lambda>resp.
     Inr (i, resp))))))"

definition send :: "http_lib \<Rightarrow> net \<Rightarrow> header_provider option \<Rightarrow> request_builder \<Rightarrow> (string \<times> response) result" where
  "send lib nt prov b = send_logging lib nt prov b Allowed"

definition send_suppressing_body :: "http_lib \<Rightarrow> net \<Rightarrow> header_provider option \<Rightarrow> request_builder \<Rightarrow> (string \<times> response) result" where
  "send_suppressing_body lib nt prov b = send_logging lib nt prov b Suppressed"

datatype event = Sent request outcome | Slept nat

text \<open>One attempt: the request is cloned, given a fresh body, built, and given its id and the dynamic headers.\<close>

definition cannot_clone :: error where
  "cannot_clone = Runtime ''Attempted to retry a request that cannot be cloned''"

definition prepare_attempt :: "http_lib \<Rightarrow> net \<Rightarrow> header_provider option \<Rightarrow> request_builder \<Rightarrow> string \<Rightarrow> nat \<Rightarrow> request result" where
  "prepare_attempt lib nt prov b i n =
     try_bind (if rb_cloneable b then Inr () else Inl cannot_clone) (\<lambda>_.
     try_bind (case make_body nt of None \<Rightarrow> Inr None | Some gen \<Rightarrow> try_bind (gen n) (\<lambda>x. Inr (Some x))) (\<lambda>bd.
     try_bind (map_err (\<lambda>e. Runtime (''Failed to build request: '' @ e)) (rb_request b)) (\<lambda>r.
     try_bind (set_request_id lib i (case bd of None \<Rightarrow> r | Some x \<Rightarrow> r\<lparr>rq_body := Some x\<rparr>)) (\<lambda>r'.
     try_bind (apply_dynamic_headers lib prov n r') (\<lambda>r''.
     try_bind (log_request lib (log_debug nt) r'' i Allowed) (\<lambda>_.
     Inr r''))))))"

definition retryable_status :: "resolved_retry_config \<Rightarrow> bool \<Rightarrow> nat \<Rightarrow> bool" where
  "retryable_status cfg retry_5xx s =
     ((retry_5xx \<and> s \<in> set (statuses cfg)) \<or> s \<in> set (filter (\<lambda>x. \<not> is_server_error x) (statuses cfg)))"

text \<open>What the loop does with an outcome: return (left) or go on with the counter (right).\<close>

definition handle_outcome :: "http_lib \<Rightarrow> resolved_retry_config \<Rightarrow> bool \<Rightarrow> retry_counter \<Rightarrow> outcome \<Rightarrow>
    (string \<times> response) result + retry_counter" where
  "handle_outcome lib cfg retry_5xx c out =
     (case out of
        Inr resp \<Rightarrow>
          if is_success (rs_status resp) then Inl (Inr (counter_request_id c, resp))
          else if retryable_status cfg retry_5xx (rs_status resp) then
            (case check_response lib (counter_request_id c) resp of
               Inr r \<Rightarrow> Inl (Inl (Panic ''called `Result::unwrap_err()` on an `Ok` value''))
             | Inl source \<Rightarrow> map_err Inl (increment_request_failures cfg source c))
          else Inl (Inr (counter_request_id c, resp))
      | Inl err \<Rightarrow>
          if re_connect err then map_err Inl (increment_connect_failures cfg err c)
          else if re_timeout err \<or> re_body err \<or> re_decode err then map_err Inl (increment_read_failures cfg err c)
          else Inl (Inl (Http (re_text err) (counter_request_id c) (re_status err))))"

partial_function (option) retry_loop :: "http_lib \<Rightarrow> net \<Rightarrow> header_provider option \<Rightarrow> resolved_retry_config \<Rightarrow> bool \<Rightarrow>
    request_builder \<Rightarrow> nat \<Rightarrow> retry_counter \<Rightarrow> event list \<Rightarrow> ((string \<times> response) result \<times> event list) option" where
  "retry_loop lib nt prov cfg retry_5xx b n c trace =
     (case prepare_attempt lib nt prov b (counter_request_id c) n of
        Inl e \<Rightarrow> Some (Inl e, trace)
      | Inr r \<Rightarrow>
          (case handle_outcome lib cfg retry_5xx c (sender nt n r) of
             Inl final \<Rightarrow> Some (final, trace @ [Sent r (sender nt n r)])
           | Inr c' \<Rightarrow>
               (case next_sleep_time cfg (random nt n) c' of
                  Inl e \<Rightarrow> Some (Inl e, trace @ [Sent r (sender nt n r)])
                | Inr d \<Rightarrow> retry_loop lib nt prov cfg retry_5xx b (n + 1) c' (trace @ [Sent r (sender nt n r), Slept d]))))"

declare retry_loop.simps [code]

definition send_with_retry :: "http_lib \<Rightarrow> net \<Rightarrow> header_provider option \<Rightarrow> resolved_retry_config \<Rightarrow> bool \<Rightarrow> request_builder \<Rightarrow>
    ((string \<times> response) result \<times> event list) option" where
  "send_with_retry lib nt prov cfg retry_5xx b =
     (case try_bind (if rb_cloneable b then Inr () else Inl cannot_clone) (\<lambda>_.
           try_bind (map_err (\<lambda>e. Runtime (''Failed to build request: '' @ e)) (rb_request b)) (\<lambda>r.
           extract_request_id lib r)) of
        Inl e \<Rightarrow> Some (Inl e, [])
      | Inr (i, r) \<Rightarrow> retry_loop lib nt prov cfg retry_5xx b 0 (new_counter i) [])"


section \<open>The retry policy\<close>

text \<open>The specification: which kind of failure an outcome is, if the policy retries it at all, and how often each kind
  occurred in a trace.\<close>

datatype failure = RequestFailure | ConnectFailure | ReadFailure

definition failure_of :: "resolved_retry_config \<Rightarrow> bool \<Rightarrow> outcome \<Rightarrow> failure option" where
  "failure_of cfg retry_5xx out =
     (case out of
        Inr resp \<Rightarrow> if \<not> is_success (rs_status resp) \<and> rs_status resp \<in> set (statuses cfg)
                       \<and> (retry_5xx \<or> \<not> is_server_error (rs_status resp)) then Some RequestFailure else None
      | Inl err \<Rightarrow> if re_connect err then Some ConnectFailure
                   else if re_timeout err \<or> re_body err \<or> re_decode err then Some ReadFailure else None)"

definition outcomes :: "event list \<Rightarrow> outcome list" where
  "outcomes tr = List.map_filter (\<lambda>e. case e of Sent r out \<Rightarrow> Some out | Slept d \<Rightarrow> None) tr"

definition failures :: "resolved_retry_config \<Rightarrow> bool \<Rightarrow> failure \<Rightarrow> event list \<Rightarrow> nat" where
  "failures cfg retry_5xx k tr = length (filter (\<lambda>out. failure_of cfg retry_5xx out = Some k) (outcomes tr))"

lemma outcomes_simps [simp]:
  "outcomes [] = []" "outcomes (Sent r out # tr) = out # outcomes tr" "outcomes (Slept d # tr) = outcomes tr"
  "outcomes (tr @ tr') = outcomes tr @ outcomes tr'"
proof -
  show "outcomes (tr @ tr') = outcomes tr @ outcomes tr'"
    unfolding outcomes_def by (induction tr) (auto split: option.splits event.splits)
qed (simp_all add: outcomes_def)

definition counts :: "resolved_retry_config \<Rightarrow> bool \<Rightarrow> event list \<Rightarrow> retry_counter \<Rightarrow> bool" where
  "counts cfg retry_5xx tr c =
     (unat (request_failures c) = failures cfg retry_5xx RequestFailure tr
      \<and> unat (connect_failures c) = failures cfg retry_5xx ConnectFailure tr
      \<and> unat (read_failures c) = failures cfg retry_5xx ReadFailure tr)"

definition below_limits :: "resolved_retry_config \<Rightarrow> retry_counter \<Rightarrow> bool" where
  "below_limits cfg c = (request_failures c < retries cfg \<and> connect_failures c < connect_retries cfg \<and> read_failures c < read_retries cfg)"

text \<open>The limits as numbers, and whether a trace has reached one.\<close>

definition limit_reached :: "resolved_retry_config \<Rightarrow> bool \<Rightarrow> event list \<Rightarrow> bool" where
  "limit_reached cfg retry_5xx tr =
     (unat (retries cfg) \<le> failures cfg retry_5xx RequestFailure tr
      \<or> unat (connect_retries cfg) \<le> failures cfg retry_5xx ConnectFailure tr
      \<or> unat (read_retries cfg) \<le> failures cfg retry_5xx ReadFailure tr)"

definition limit_error :: "resolved_retry_config \<Rightarrow> bool \<Rightarrow> string \<Rightarrow> event list \<Rightarrow> error \<Rightarrow> bool" where
  "limit_error cfg retry_5xx i tr e =
     (\<exists>source status. e = Retry i (failures cfg retry_5xx RequestFailure tr) (unat (retries cfg))
        (failures cfg retry_5xx ConnectFailure tr) (unat (connect_retries cfg))
        (failures cfg retry_5xx ReadFailure tr) (unat (read_retries cfg)) source status)"

definition room :: "retry_counter \<Rightarrow> bool" where
  "room c = (request_failures c \<noteq> - 1 \<and> connect_failures c \<noteq> - 1 \<and> read_failures c \<noteq> - 1)"

lemma unat_succ: "(x :: 8 word) \<noteq> - 1 \<Longrightarrow> unat (x + 1) = Suc (unat x)"
proof -
  assume "x \<noteq> - 1"
  then have "1 + x \<noteq> 0" using eq_neg_iff_add_eq_0 [of x 1] by (simp only: add.commute not_False_eq_True)
  then show ?thesis using unatSuc [of x] by (simp add: add.commute)
qed

lemma below_room: "below_limits cfg c \<Longrightarrow> room c"
  by (auto simp: below_limits_def room_def leD [OF word_n1_ge])

lemma failures_snoc:
  "failures cfg r5 k (tr @ [Sent r out]) = (if failure_of cfg r5 out = Some k then Suc else id) (failures cfg r5 k tr)"
  "failures cfg r5 k (tr @ [Sent r out, Slept d]) = failures cfg r5 k (tr @ [Sent r out])"
  by (simp_all add: failures_def)

lemma check_out_of_retries_counts:
  assumes "counts cfg r5 tr c"
  shows "check_out_of_retries cfg c source status = Inr c \<and> \<not> limit_reached cfg r5 tr \<and> below_limits cfg c
     \<or> (\<exists>e. check_out_of_retries cfg c source status = Inl e \<and> limit_reached cfg r5 tr \<and> limit_error cfg r5 (counter_request_id c) tr e)"
  using assms unfolding check_out_of_retries_def counts_def limit_reached_def limit_error_def below_limits_def word_le_nat_alt word_less_nat_alt
  by auto

text \<open>Handling an outcome: a final outcome is returned; a failure is counted and either ends the loop with the limit error
  or leaves every counter below its limit.\<close>

lemma handle_final:
  assumes "failure_of cfg r5 out = None"
  shows "handle_outcome lib cfg r5 c out
     = Inl (case out of Inr resp \<Rightarrow> Inr (counter_request_id c, resp)
                      | Inl err \<Rightarrow> Inl (Http (re_text err) (counter_request_id c) (re_status err)))"
  using assms by (auto simp: handle_outcome_def failure_of_def retryable_status_def split: sum.splits if_splits)

lemma handle_failure:
  assumes f: "failure_of cfg r5 out = Some k" and c: "counts cfg r5 tr c" "room c"
  shows "(\<exists>c'. handle_outcome lib cfg r5 c out = Inr c' \<and> counter_request_id c' = counter_request_id c
            \<and> counts cfg r5 (tr @ [Sent r out]) c' \<and> below_limits cfg c' \<and> \<not> limit_reached cfg r5 (tr @ [Sent r out]))
     \<or> (\<exists>e. handle_outcome lib cfg r5 c out = Inl (Inl e) \<and> limit_reached cfg r5 (tr @ [Sent r out])
            \<and> limit_error cfg r5 (counter_request_id c) (tr @ [Sent r out]) e)"
proof -
  define c' where "c' = (case k of RequestFailure \<Rightarrow> c\<lparr>request_failures := request_failures c + 1\<rparr>
     | ConnectFailure \<Rightarrow> c\<lparr>connect_failures := connect_failures c + 1\<rparr> | ReadFailure \<Rightarrow> c\<lparr>read_failures := read_failures c + 1\<rparr>)"
  have id: "counter_request_id c' = counter_request_id c" by (simp add: c'_def split: failure.split)
  have cnt: "counts cfg r5 (tr @ [Sent r out]) c'"
    using c f unfolding counts_def room_def c'_def by (cases k) (auto simp: failures_snoc unat_succ)
  obtain source status where h: "handle_outcome lib cfg r5 c out = map_err Inl (check_out_of_retries cfg c' source status)"
    using f by (force simp: handle_outcome_def failure_of_def c'_def retryable_status_def check_response_def increment_request_failures_def
        increment_connect_failures_def increment_read_failures_def split: sum.splits if_splits)
  from check_out_of_retries_counts [OF cnt, of source status] show ?thesis
    using id cnt unfolding h by (auto simp: map_err_def)
qed


lemma sleep_panics: "next_sleep_time cfg rnd c = Inl e \<Longrightarrow> \<exists>m. e = Panic m"
  by (auto simp: next_sleep_time_def from_secs_f32_def Let_def split: float.splits if_splits)

lemma length_by_kind:
  "\<forall>x \<in> set xs. f x \<noteq> None \<Longrightarrow>
     length xs = length (filter (\<lambda>x. f x = Some RequestFailure) xs) + length (filter (\<lambda>x. f x = Some ConnectFailure) xs)
               + length (filter (\<lambda>x. f x = Some ReadFailure) xs)"
  by (induction xs) (auto, metis failure.exhaust)

definition max_attempts :: "resolved_retry_config \<Rightarrow> nat" where
  "max_attempts cfg = max 1 (unat (retries cfg) + unat (connect_retries cfg) + unat (read_retries cfg) - 2)"

lemma attempts_left:
  assumes "\<forall>out \<in> set (outcomes tr). failure_of cfg r5 out \<noteq> None" "counts cfg r5 tr c"
    and "outcomes tr = [] \<or> below_limits cfg c"
  shows "length (outcomes tr) < max_attempts cfg"
proof (cases "outcomes tr = []")
  case False
  with assms(3) have "below_limits cfg c" by blast
  moreover have "length (outcomes tr) = unat (request_failures c) + unat (connect_failures c) + unat (read_failures c)"
    using length_by_kind [OF assms(1)] assms(2) by (simp add: counts_def failures_def)
  ultimately show ?thesis by (auto simp: max_attempts_def below_limits_def word_less_nat_alt)
qed (simp add: max_attempts_def)

text \<open>What holds of the result and the trace of a finished call.\<close>

definition finished :: "resolved_retry_config \<Rightarrow> bool \<Rightarrow> string \<Rightarrow> (string \<times> response) result \<Rightarrow> event list \<Rightarrow> bool" where
  "finished cfg retry_5xx i res tr =
     ((\<forall>out \<in> set (butlast (outcomes tr)). failure_of cfg retry_5xx out \<noteq> None)
      \<and> length (outcomes tr) \<le> max_attempts cfg
      \<and> (\<forall>j resp. res = Inr (j, resp) \<longrightarrow> j = i \<and> failure_of cfg retry_5xx (Inr resp) = None
            \<and> (\<exists>tr' r. tr = tr' @ [Sent r (Inr resp)]))
      \<and> (\<forall>tr' r out. tr = tr' @ [Sent r out] \<longrightarrow> failure_of cfg retry_5xx out \<noteq> None \<longrightarrow>
            (if limit_reached cfg retry_5xx tr then \<exists>e. res = Inl e \<and> limit_error cfg retry_5xx i tr e
             else \<exists>m. res = Inl (Panic m))))"

lemma retry_loop_finished:
  assumes "\<forall>out \<in> set (outcomes tr). failure_of cfg r5 out \<noteq> None" "counts cfg r5 tr c" "room c"
    and "outcomes tr = [] \<or> below_limits cfg c" "tr = [] \<or> (\<exists>tr' d. tr = tr' @ [Slept d])"
  shows "\<exists>res tr'. retry_loop lib nt prov cfg r5 b n c tr = Some (res, tr') \<and> finished cfg r5 (counter_request_id c) res tr'"
  using assms
proof (induction "max_attempts cfg - length (outcomes tr)" arbitrary: n c tr rule: less_induct)
  case less
  note left = attempts_left [OF less.prems(1,2,4)]
  show ?case
  proof (cases "prepare_attempt lib nt prov b (counter_request_id c) n")
    case (Inl e)
    have "finished cfg r5 (counter_request_id c) (Inl e) tr"
      using less.prems(1,5) left by (auto simp: finished_def dest: in_set_butlastD)
    with Inl show ?thesis by (simp add: retry_loop.simps)
  next
    case (Inr r)
    define out where "out = sender nt n r"
    show ?thesis
    proof (cases "failure_of cfg r5 out")
      case None
      have "finished cfg r5 (counter_request_id c) (case out of Inr resp \<Rightarrow> Inr (counter_request_id c, resp)
          | Inl err \<Rightarrow> Inl (Http (re_text err) (counter_request_id c) (re_status err))) (tr @ [Sent r out])"
        using less.prems(1) left None by (cases out) (auto simp: finished_def)
      with Inr handle_final [OF None] show ?thesis by (simp add: retry_loop.simps [of lib nt prov cfg r5 b n c] out_def)
    next
      case (Some k)
      from handle_failure [OF Some less.prems(2,3), of lib r] show ?thesis
      proof (elim disjE exE conjE)
        fix e assume e: "handle_outcome lib cfg r5 c out = Inl (Inl e)" "limit_reached cfg r5 (tr @ [Sent r out])"
          "limit_error cfg r5 (counter_request_id c) (tr @ [Sent r out]) e"
        then have "finished cfg r5 (counter_request_id c) (Inl e) (tr @ [Sent r out])"
          using less.prems(1) left by (auto simp: finished_def)
        with Inr e(1) show ?thesis by (simp add: retry_loop.simps [of lib nt prov cfg r5 b n c] out_def)
      next
        fix c' assume c': "handle_outcome lib cfg r5 c out = Inr c'" "counter_request_id c' = counter_request_id c"
          "counts cfg r5 (tr @ [Sent r out]) c'" "below_limits cfg c'" "\<not> limit_reached cfg r5 (tr @ [Sent r out])"
        show ?thesis
        proof (cases "next_sleep_time cfg (random nt n) c'")
          case (Inl e)
          have "finished cfg r5 (counter_request_id c) (Inl e) (tr @ [Sent r out])"
            using sleep_panics [OF Inl] c'(5) less.prems(1) left by (auto simp: finished_def)
          with Inr c'(1) Inl show ?thesis by (simp add: retry_loop.simps [of lib nt prov cfg r5 b n c] out_def)
        next
          case (Inr d)
          have "\<exists>res tr'. retry_loop lib nt prov cfg r5 b (n + 1) c' (tr @ [Sent r out, Slept d]) = Some (res, tr')
              \<and> finished cfg r5 (counter_request_id c') res tr'"
            using less.prems(1) left Some c'(3,4) below_room [OF c'(4)]
            by (intro less.hyps) (auto simp: counts_def failures_snoc(2))
          with \<open>prepare_attempt lib nt prov b (counter_request_id c) n = Inr r\<close> c'(1,2) Inr show ?thesis
            by (simp add: retry_loop.simps [of lib nt prov cfg r5 b n c] out_def)
        qed
      qed
    qed
  qed
qed

lemma send_with_retry_finished:
  "\<exists>i res tr. send_with_retry lib nt prov cfg r5 b = Some (res, tr) \<and> finished cfg r5 i res tr"
proof (cases "try_bind (if rb_cloneable b then Inr () else Inl cannot_clone) (\<lambda>_.
           try_bind (map_err (\<lambda>e. Runtime (''Failed to build request: '' @ e)) (rb_request b)) (\<lambda>r. extract_request_id lib r))")
  case (Inl e)
  have "finished cfg r5 [] (Inl e) []" by (simp add: finished_def)
  with Inl show ?thesis by (auto simp: send_with_retry_def)
next
  case (Inr p)
  obtain i r where "p = (i, r)" by (cases p)
  moreover have "\<exists>res tr. retry_loop lib nt prov cfg r5 b 0 (new_counter i) [] = Some (res, tr)
      \<and> finished cfg r5 (counter_request_id (new_counter i)) res tr"
    by (rule retry_loop_finished) (simp_all add: counts_def failures_def new_counter_def room_def)
  ultimately show ?thesis using Inr by (auto simp: send_with_retry_def)
qed


section \<open>A failing service\<close>

text \<open>Every attempt gets the same answer.\<close>

definition sample_builder :: request_builder where
  "sample_builder = \<lparr>rb_cloneable = True, rb_request = Inr \<lparr>rq_headers = [], rq_body = None\<rparr>\<rparr>"

definition sample_response :: "nat \<Rightarrow> response" where
  "sample_response s = \<lparr>rs_status = s, rs_text = None\<rparr>"

definition sample_net :: "(nat \<Rightarrow> nat) \<Rightarrow> net" where
  "sample_net answer = \<lparr>make_body = None, sender = (\<lambda>n r. Inr (sample_response (answer n))), random = (\<lambda>_. 0), log_debug = False\<rparr>"

definition sample_retry :: resolved_retry_config where
  "sample_retry = \<lparr>retries = 3, connect_retries = 3, read_retries = 3, backoff_factor = Fin (1 / 4), backoff_jitter = Fin (1 / 4),
     statuses = [409, 429, 500, 502, 503, 504]\<rparr>"

text \<open>The pause before the first retry of a failed request is 0.5 s, twice what the documentation of the setting says.\<close>

lemma first_pause:
  "next_sleep_time sample_retry 0 ((new_counter ''id'')\<lparr>request_failures := 1\<rparr>) = Inr 500000000"
  by code_simp

section \<open>Properties\<close>

text \<open>
  C33 (retries end). A call with retries returns whatever the service answers, after at most as many attempts as the three
  limits allow together.
\<close>
theorem send_with_retry_returns:
  "\<exists>res tr. send_with_retry lib nt prov cfg retry_5xx b = Some (res, tr) \<and> length (outcomes tr) \<le> max_attempts cfg"
  using send_with_retry_finished [of lib nt prov cfg retry_5xx b] unfolding finished_def by blast

text \<open>
  C34 (what is retried). A request is sent again only after a failure the policy retries, so without \<^verbatim>\<open>retry_5xx\<close> never after
  a server error; a response that is returned is the answer to the last attempt and is not one to retry.
\<close>
theorem retried_outcomes:
  assumes "send_with_retry lib nt prov cfg retry_5xx b = Some (res, tr)"
  shows "(\<forall>out \<in> set (butlast (outcomes tr)). failure_of cfg retry_5xx out \<noteq> None
            \<and> (\<forall>resp. out = Inr resp \<and> \<not> retry_5xx \<longrightarrow> \<not> is_server_error (rs_status resp)))
         \<and> (\<forall>i resp. res = Inr (i, resp) \<longrightarrow> outcomes tr \<noteq> [] \<and> last (outcomes tr) = Inr resp
               \<and> failure_of cfg retry_5xx (Inr resp) = None)"
proof -
  obtain i where f: "finished cfg retry_5xx i res tr"
    using send_with_retry_finished [of lib nt prov cfg retry_5xx b] assms by auto
  have "\<not> is_server_error (rs_status resp)" if "failure_of cfg retry_5xx (Inr resp) \<noteq> None" "\<not> retry_5xx" for resp
    using that by (auto simp: failure_of_def split: if_splits)
  moreover have "outcomes tr \<noteq> [] \<and> last (outcomes tr) = Inr resp \<and> failure_of cfg retry_5xx (Inr resp) = None"
    if "res = Inr (j, resp)" for j resp
    using f that unfolding finished_def by fastforce
  ultimately show ?thesis using f unfolding finished_def by blast
qed

theorem retried_outcomes_witness:
  "\<exists>tr. send_with_retry sample_lib (sample_net (\<lambda>n. if n = 0 then 429 else 503)) None sample_retry False sample_builder
       = Some (Inr (''id'', sample_response 503), tr)
     \<and> outcomes tr = [Inr (sample_response 429), Inr (sample_response 503)] \<and> \<not> is_server_error 429"
proof -
  let ?r = "send_with_retry sample_lib (sample_net (\<lambda>n. if n = 0 then 429 else 503)) None sample_retry False sample_builder"
  have "case ?r of Some (res, tr) \<Rightarrow> res = Inr (''id'', sample_response 503)
      \<and> outcomes tr = [Inr (sample_response 429), Inr (sample_response 503)] | None \<Rightarrow> False" by code_simp
  then obtain tr where tr: "?r = Some (Inr (''id'', sample_response 503), tr)"
    "outcomes tr = [Inr (sample_response 429), Inr (sample_response 503)]" by (auto split: option.splits)
  with retried_outcomes [OF tr(1)] show ?thesis by (auto simp: sample_response_def)
qed

text \<open>
  C35 (running out of retries). When the last thing a call did was an attempt that failed in a way the policy retries, it
  returns an error: the limit error with exactly the failures of each kind that occurred, if one of them reached its limit,
  and otherwise the panic of an impossible pause.
\<close>
theorem retry_limit_error:
  assumes "send_with_retry lib nt prov cfg retry_5xx b = Some (res, tr' @ [Sent r out])"
    and "failure_of cfg retry_5xx out \<noteq> None"
  shows "if limit_reached cfg retry_5xx (tr' @ [Sent r out])
         then \<exists>i e. res = Inl e \<and> limit_error cfg retry_5xx i (tr' @ [Sent r out]) e
         else \<exists>m. res = Inl (Panic m)"
proof -
  obtain i where "finished cfg retry_5xx i res (tr' @ [Sent r out])"
    using send_with_retry_finished [of lib nt prov cfg retry_5xx b] assms(1) by auto
  with assms(2) show ?thesis unfolding finished_def by (auto split: if_splits)
qed


theorem retry_limit_error_witness:
  "\<exists>tr. send_with_retry sample_lib (sample_net (\<lambda>n. 503)) None sample_retry True sample_builder
       = Some (Inl (Retry ''id'' 3 3 0 3 0 3 ''Http error: (request_id=id) 503'' (Some 503)), tr)
     \<and> outcomes tr = replicate 3 (Inr (sample_response 503)) \<and> limit_reached sample_retry True tr"
proof -
  let ?r = "send_with_retry sample_lib (sample_net (\<lambda>n. 503)) None sample_retry True sample_builder"
  let ?e = "Retry ''id'' 3 3 0 3 0 3 ''Http error: (request_id=id) 503'' (Some 503)"
  have "case ?r of Some (res, tr) \<Rightarrow> res = Inl ?e \<and> outcomes tr = replicate 3 (Inr (sample_response 503))
      \<and> tr \<noteq> [] \<and> (case last tr of Sent r out \<Rightarrow> out = Inr (sample_response 503) | _ \<Rightarrow> False) | None \<Rightarrow> False" by code_simp
  then obtain t where t: "?r = Some (Inl ?e, t)" "outcomes t = replicate 3 (Inr (sample_response 503))" "t \<noteq> []"
    "case last t of Sent r out \<Rightarrow> out = Inr (sample_response 503) | _ \<Rightarrow> False"
    by (auto split: option.splits)
  from t(4) obtain r where "last t = Sent r (Inr (sample_response 503))" by (cases "last t") auto
  with append_butlast_last_id [OF t(3)] t(1,2) obtain tr where tr: "?r = Some (Inl ?e, tr @ [Sent r (Inr (sample_response 503))])"
    "outcomes (tr @ [Sent r (Inr (sample_response 503))]) = replicate 3 (Inr (sample_response 503))" by metis
  have "failure_of sample_retry True (Inr (sample_response 503)) \<noteq> None" by code_simp
  from retry_limit_error [OF tr(1) this] tr show ?thesis by (auto split: if_splits)
qed

end
