(* ===== verification/Spec2Isabelle.thy ===== *)
theory Spec2Isabelle
  imports AuthzPrivilege Streams PermReader DatasetState FreshnessProofs RemoteClient
begin

text \<open>
  A verification development for the Rust crate \<^verbatim>\<open>src/rust/lancedb\<close>: the logic of the client library that does not
  live in the storage engine or on the wire. All paths below are relative to \<^verbatim>\<open>src/rust/lancedb/src\<close>.

  \<^bold>\<open>How the program is modelled.\<close> Rust's \<^verbatim>\<open>Result\<close> is a sum with the error enum of \<^verbatim>\<open>error.rs\<close> on the left and
  \<^verbatim>\<open>?\<close> is \<^const>\<open>try_bind\<close>; a panic is the extra error \<^const>\<open>Panic\<close>. Strings are their UTF-8 bytes. Structs are
  records, enums are datatypes, and methods that change \<^verbatim>\<open>self\<close> return the new state. Numbers are
  naturals, with the wrap-around at \<open>2 ^ 64\<close> or \<open>2 ^ 32\<close> written out where the code can reach it. A
  stream is the list of what it yields. A loop that may not end has an option as its result
  (\<open>to_counts\<close>, \<open>retry_loop\<close>); every other recursion is total, so there is no fuel. Code under a lock is one atomic step
  with its own reading of the clock, and calls that release the lock between steps are step functions over
  their position, related by an inductive relation over all interleavings. What belongs to other crates (the Lance storage engine, DataFusion, Arrow, random
  numbers, hash functions, the object store) is a record of functions that the definitions take as an argument;
  what the theorems rely on of it is a predicate named \<open>..._laws\<close>, and each theorem with such a
  hypothesis has a witness at a concrete instance.

  \<^bold>\<open>Theories.\<close>

  \<^item> \<open>Prelude\<close>: errors and their texts (\<^verbatim>\<open>error.rs\<close>), results, string splitting, decimal numbers.
  \<^item> \<open>Names\<close>: the validators of \<^verbatim>\<open>utils/mod.rs\<close> and what names they accept.
  \<^item> \<open>AuthzObject\<close>, \<open>AuthzPrivilege\<close>: \<^verbatim>\<open>authz/object.rs\<close>, \<^verbatim>\<open>authz/privilege.rs\<close>, \<^verbatim>\<open>authz/subject.rs\<close>. Printing and
    parsing are inverse to each other and only canonical texts are accepted; descent, prefixes and
    parents of namespace paths are those of the prefix order; the display of an API key hides it.
  \<^item> \<open>Streams\<close>: the adapters \<^verbatim>\<open>MaxBatchLengthStream\<close> and \<^verbatim>\<open>TimeoutStream\<close> of \<^verbatim>\<open>utils/mod.rs\<close>, poll by poll.
  \<^item> \<open>Floats\<close>: IEEE rounding of rationals, as far as the split percentages need it.
  \<^item> \<open>Split\<close>, \<open>Shuffle\<close>, \<open>PermBuilder\<close>, \<open>PermReader\<close>: the data loader, \<^verbatim>\<open>dataloader/permutation/\<close>. Split sizes
    become counts (the loops end; the exact ranges in which the sums do not overflow are part of the
    statements), rows are assigned to splits, clumps are permuted in memory or
    through spilled files, the builder composes these into a permutation table, and the reader opens, narrows
    and reads it. Reading and taking agree, the reader's state is consistent, and the version recorded by
    the builder is the one the reader opens. The reader's unchecked sum of offset and limit can overflow;
    its states include those, and the theorems say what still holds there.
  \<^item> \<open>BgCache\<close>, \<open>DatasetState\<close>: \<^verbatim>\<open>utils/background_cache.rs\<close> and \<^verbatim>\<open>table/dataset.rs\<close>. Under every interleaving
    of callers, fetches and tasks the cache serves only the current generation, a pinned wrapper stays
    at its version, an unpinned one ends with the newest dataset brought to it, and a reader sees its own
    writes as long as the wrapper stays on its branch.
  \<^item> \<open>Sidecar\<close>, \<open>Freshness\<close>, \<open>FreshnessProofs\<close>: \<^verbatim>\<open>table/freshness.rs\<close>, the signatures of computed columns, their binary
    encoding and objects, the lineage through compactions, planning, recording and pruning. A change of a
    recorded fragment is noticed, what is left clean is justified by the history, a damaged record leads to recomputation,
    and pruning removes only what nothing refers to.
  \<^item> \<open>RemoteConfig\<close>, \<open>RemoteClient\<close>: \<^verbatim>\<open>remote/client.rs\<close> and \<^verbatim>\<open>remote/retry.rs\<close>, the client of the remote service: its settings and
    their resolution, the headers, the failure counters (8-bit words) and the retry loop. A constructed client is
    well-formed, secrets are marked in the headers, the loop ends within the limits, it repeats only
    what the policy allows, and the limit error reports exactly the failures that occurred.

  \<^bold>\<open>Not modelled.\<close> The remote tables and databases (\<^verbatim>\<open>remote/\<close> apart from the client: JSON exchange with a
  service), the listing and namespace databases and \<^verbatim>\<open>connection.rs\<close> (file system and catalog access), the query
  execution and table operations that only assemble calls of the storage engine (\<^verbatim>\<open>table.rs\<close>, \<^verbatim>\<open>query.rs\<close>,
  \<^verbatim>\<open>table/\<close> apart from the files above), embeddings, and the Python, Node and Java bindings.
\<close>

end
